(* ===== verification/Prelude.thy ===== *)
theory Prelude
  imports Main "HOL-Library.AList"
begin

text \<open>
  What every theory of the development shares: the Go error values, the Go map as an
  association list with the interface the components rely on, and runs of step relations with
  invariants, the events seen of a run, and simulations.

  A Go \<open>string\<close> or \<open>[]byte\<close> is a \<^typ>\<open>string\<close>, a list of 8-bit characters, so
  \<^const>\<open>length\<close> counts bytes as Go's \<open>len\<close> does.  A \<open>time.Duration\<close> or a point in
  time is an \<^typ>\<open>int\<close> of nanoseconds.
\<close>

named_theorems go_str \<open>defining equations of the Go string, number and path functions\<close>
named_theorems sup_defs \<open>definitions of the supervisor operations\<close>
named_theorems frame \<open>what an operation leaves unchanged\<close>

type_synonym duration = int
type_synonym instant = int

abbreviation millisecond :: duration where
  "millisecond \<equiv> 1000000"

abbreviation second :: duration where
  "second \<equiv> 1000000000"

abbreviation minute :: duration where
  "minute \<equiv> 60000000000"

section \<open>Error values\<close>

text \<open>
  The values of Go's \<open>error\<close> interface that the program makes or tests for.  \<open>Errorf f as w\<close>
  is \<open>fmt.Errorf\<close> with the format \<open>f\<close>, its string arguments \<open>as\<close> and the wrapped error,
  if the format has a \<open>%w\<close>; the rendered text is not computed.  \<open>ErrExt\<close> is any error
  that comes from outside the program (the kernel, the network, a library).
\<close>

datatype go_error =
    ErrSessionExists
  | ErrDraining
  | Canceled
  | DeadlineExceeded
  | ErrNotExist
  | ErrSyntax
  | ErrRange
  | ErrTooLong
  | EOF
  | ErrUnexpectedEOF
  | ErrJsonSyntax
  | ErrJsonType
  | ErrExt string
  | Errorf string "string list" "go_error option"

text \<open>\<open>errors.Is\<close>: the error or one of the errors it wraps is the target.\<close>

fun errors_Is :: "go_error \<Rightarrow> go_error \<Rightarrow> bool" where
  "errors_Is (Errorf f as (Some e)) t = (Errorf f as (Some e) = t \<or> errors_Is e t)"
| "errors_Is e t = (e = t)"

lemma errors_Is_refl [simp]: "errors_Is e e"
  by (cases "(e, e)" rule: errors_Is.cases) auto

lemma errors_Is_trans: "errors_Is a b \<Longrightarrow> errors_Is b c \<Longrightarrow> errors_Is a c"
  by (induction a b rule: errors_Is.induct) auto

text \<open>The outcome of a call that may panic.\<close>

datatype 'a outcome = Return 'a | Panic string

section \<open>Go maps\<close>

text \<open>
  A Go map is an association list with distinct keys; the list order stands for one of the
  orders in which \<open>range\<close> may visit it, which Go leaves open.
\<close>

type_synonym ('k, 'v) gomap = "('k \<times> 'v) list"

abbreviation map_get :: "('k, 'v) gomap \<Rightarrow> 'k \<Rightarrow> 'v option" where
  "map_get \<equiv> map_of"

abbreviation map_put :: "'k \<Rightarrow> 'v \<Rightarrow> ('k, 'v) gomap \<Rightarrow> ('k, 'v) gomap" where
  "map_put \<equiv> AList.update"

abbreviation map_del :: "'k \<Rightarrow> ('k, 'v) gomap \<Rightarrow> ('k, 'v) gomap" where
  "map_del \<equiv> AList.delete"

definition map_keys :: "('k, 'v) gomap \<Rightarrow> 'k list" where
  "map_keys m = map fst m"

definition map_ok :: "('k, 'v) gomap \<Rightarrow> bool" where
  "map_ok m \<longleftrightarrow> distinct (map fst m)"

text \<open>
  The interface the session table is used through: lookup after insert and delete, the keys
  a \<open>range\<close> visits, and that every operation keeps the keys distinct.
\<close>

locale table =
  fixes empty :: 'm
    and get :: "'m \<Rightarrow> 'k \<Rightarrow> 'v option"
    and put :: "'k \<Rightarrow> 'v \<Rightarrow> 'm \<Rightarrow> 'm"
    and del :: "'k \<Rightarrow> 'm \<Rightarrow> 'm"
    and keys :: "'m \<Rightarrow> 'k list"
    and ok :: "'m \<Rightarrow> bool"
  assumes get_empty: "get empty k = None"
    and get_put: "get (put k v m) k' = (if k' = k then Some v else get m k')"
    and get_del: "get (del k m) k' = (if k' = k then None else get m k')"
    and keys_get: "k \<in> set (keys m) \<longleftrightarrow> get m k \<noteq> None"
    and keys_distinct: "ok m \<Longrightarrow> distinct (keys m)"
    and ok_empty: "ok empty"
    and ok_put: "ok m \<Longrightarrow> ok (put k v m)"
    and ok_del: "ok m \<Longrightarrow> ok (del k m)"
begin

lemma get_del_all: "get (fold del ks m) k = (if k \<in> set ks then None else get m k)"
  by (induction ks arbitrary: m) (auto simp: get_del)

lemma ok_del_all: "ok m \<Longrightarrow> ok (fold del ks m)"
  by (induction ks arbitrary: m) (auto simp: ok_del)

lemma del_all_keys: "set (keys m) \<subseteq> set ks \<Longrightarrow> get (fold del ks m) k = None"
  using keys_get by (auto simp: get_del_all)

lemma keys_empty_iff: "keys m = [] \<longleftrightarrow> (\<forall>k. get m k = None)"
  using keys_get by (metis empty_iff empty_set list.set_intros(1) neq_Nil_conv)

end

lemma keys_get_alist: "k \<in> set (map_keys m) \<longleftrightarrow> map_get m k \<noteq> None"
  by (simp add: map_keys_def map_of_eq_None_iff)

interpretation smap: table "[]" map_get map_put map_del map_keys map_ok
proof (unfold_locales, goal_cases)
  case (4 k m)
  show ?case by (rule keys_get_alist)
qed (auto simp: update_conv' delete_conv' map_ok_def map_keys_def distinct_update distinct_delete)

lemma map_keys_simps [simp]:
  "map_keys [] = []" "map_keys ((k, v) # m) = k # map_keys m"
  by (simp_all add: map_keys_def)

lemma map_ok_simps [simp]:
  "map_ok []" "map_ok [p]"
  by (simp_all add: map_ok_def)

lemma map_get_None_Nil: "(\<forall>k. map_get m k = None) \<longleftrightarrow> m = []"
  by (cases m) (auto simp: map_of_eq_None_iff split: if_splits)

section \<open>Step relations\<close>

inductive reach :: "('s \<Rightarrow> bool) \<Rightarrow> ('s \<Rightarrow> 'l \<Rightarrow> 's \<Rightarrow> bool) \<Rightarrow> 's \<Rightarrow> bool"
  for init :: "'s \<Rightarrow> bool" and step :: "'s \<Rightarrow> 'l \<Rightarrow> 's \<Rightarrow> bool" where
  reach_init: "init s \<Longrightarrow> reach init step s"
| reach_step: "reach init step s \<Longrightarrow> step s l t \<Longrightarrow> reach init step t"

text \<open>A run: the labels of the steps from one state to another.\<close>

inductive run :: "('s \<Rightarrow> 'l \<Rightarrow> 's \<Rightarrow> bool) \<Rightarrow> 's \<Rightarrow> 'l list \<Rightarrow> 's \<Rightarrow> bool"
  for step :: "'s \<Rightarrow> 'l \<Rightarrow> 's \<Rightarrow> bool" where
  run_Nil: "run step s [] s"
| run_Cons: "step s l t \<Longrightarrow> run step t ls u \<Longrightarrow> run step s (l # ls) u"

inductive_simps run_Nil_iff [simp]: "run step s [] t"
inductive_simps run_Cons_iff: "run step s (l # ls) u"

lemma run_append: "run step s ls t \<Longrightarrow> run step t ms u \<Longrightarrow> run step s (ls @ ms) u"
  by (induction rule: run.induct) (auto intro: run_Cons)

lemma reach_run: "reach init step s \<Longrightarrow> run step s ls t \<Longrightarrow> reach init step t"
  by (rotate_tac 1, induction rule: run.induct) (auto intro: reach_step)

text \<open>The contract of an invariant, and what it gives for every reachable state.\<close>

locale invariant_system =
  fixes init :: "'s \<Rightarrow> bool"
    and step :: "'s \<Rightarrow> 'l \<Rightarrow> 's \<Rightarrow> bool"
    and inv :: "'s \<Rightarrow> bool"
  assumes inv_init: "init s \<Longrightarrow> inv s"
    and inv_step: "inv s \<Longrightarrow> step s l t \<Longrightarrow> inv t"
begin

lemma inv_reach: "reach init step s \<Longrightarrow> inv s"
  by (induction rule: reach.induct) (auto intro: inv_init inv_step)

lemma inv_run: "run step s ls t \<Longrightarrow> inv s \<Longrightarrow> inv t"
  by (induction rule: run.induct) (auto intro: inv_step)

end

text \<open>
  What a client sees of a run: \<open>obs\<close> gives each step, in the state it is taken in, its event,
  the call with its answer.
\<close>

inductive trace :: "('s \<Rightarrow> 'l \<Rightarrow> 's \<Rightarrow> bool) \<Rightarrow> ('s \<Rightarrow> 'l \<Rightarrow> 'e) \<Rightarrow> 's \<Rightarrow> 'l list \<Rightarrow> 'e list \<Rightarrow> 's \<Rightarrow> bool"
  for step :: "'s \<Rightarrow> 'l \<Rightarrow> 's \<Rightarrow> bool" and obs :: "'s \<Rightarrow> 'l \<Rightarrow> 'e" where
  trace_Nil: "trace step obs s [] [] s"
| trace_Cons: "step s l t \<Longrightarrow> trace step obs t ls es u \<Longrightarrow> trace step obs s (l # ls) (obs s l # es) u"

inductive_simps trace_Nil_iff [simp]: "trace step obs s [] es t"
inductive_simps trace_Cons_iff: "trace step obs s (l # ls) es u"

lemma trace_run: "trace step obs s ls es t \<Longrightarrow> run step s ls t \<and> length es = length ls"
  by (induction rule: trace.induct) (auto intro: run_Nil run_Cons)

lemma run_trace: "run step s ls t \<Longrightarrow> \<exists>es. trace step obs s ls es t"
  by (induction rule: run.induct) (auto intro: trace_Nil trace_Cons)

lemma trace_append: "trace step obs s ls es t \<Longrightarrow> trace step obs t ms fs u \<Longrightarrow> trace step obs s (ls @ ms) (es @ fs) u"
  by (induction rule: trace.induct) (auto intro: trace_Cons)

text \<open>
  A simulation: every concrete step is, with the event that is seen of it, a step of the
  abstract system, so what is seen of a run is a run of the abstract system.
\<close>

locale simulation = invariant_system init step inv
  for init :: "'s \<Rightarrow> bool" and step :: "'s \<Rightarrow> 'l \<Rightarrow> 's \<Rightarrow> bool" and inv :: "'s \<Rightarrow> bool" +
  fixes obs :: "'s \<Rightarrow> 'l \<Rightarrow> 'e"
    and abs :: "'s \<Rightarrow> 'a"
    and ainit :: "'a \<Rightarrow> bool"
    and astep :: "'a \<Rightarrow> 'e \<Rightarrow> 'a \<Rightarrow> bool"
  assumes sim_init: "init s \<Longrightarrow> ainit (abs s)"
    and sim_step: "inv s \<Longrightarrow> step s l t \<Longrightarrow> astep (abs s) (obs s l) (abs t)"
begin

lemma sim_run: "trace step obs s ls es t \<Longrightarrow> inv s \<Longrightarrow> run astep (abs s) es (abs t)"
  by (induction rule: trace.induct) (auto intro: run_Nil run_Cons sim_step inv_step)

lemma sim_trace: "init s \<Longrightarrow> trace step obs s ls es t \<Longrightarrow> ainit (abs s) \<and> run astep (abs s) es (abs t)"
  by (auto intro: sim_init sim_run inv_init)

end

end
