(* ===== verification/Go_Strings.thy ===== *)
theory Go_Strings
  imports Prelude "HOL-Library.Word"
begin

text \<open>
  The parts of Go's \<open>strings\<close>, \<open>strconv\<close>, \<open>bufio\<close> and \<open>encoding/hex\<close> packages that the
  program calls, on byte strings, with the lemmas the components use about them.
\<close>

abbreviation newline :: char where "newline \<equiv> CHR 0x0A"
abbreviation carriage_return :: char where "carriage_return \<equiv> CHR 0x0D"
abbreviation nul :: char where "nul \<equiv> CHR 0x00"
abbreviation space :: char where "space \<equiv> CHR '' ''"

section \<open>Substrings\<close>

definition HasPrefix :: "string \<Rightarrow> string \<Rightarrow> bool" where
  "HasPrefix s p \<longleftrightarrow> take (length p) s = p"

definition TrimPrefix :: "string \<Rightarrow> string \<Rightarrow> string" where
  "TrimPrefix s p = (if HasPrefix s p then drop (length p) s else s)"

text \<open>\<open>strings.Index\<close>, with \<open>None\<close> for the result \<open>-1\<close>.\<close>

fun Index :: "string \<Rightarrow> string \<Rightarrow> nat option" where
  "Index [] p = (if p = [] then Some 0 else None)"
| "Index (c # s) p = (if HasPrefix (c # s) p then Some 0 else map_option Suc (Index s p))"

definition Contains :: "string \<Rightarrow> string \<Rightarrow> bool" where
  "Contains s p \<longleftrightarrow> Index s p \<noteq> None"

text \<open>\<open>strings.IndexAny\<close> for a set of ASCII characters.\<close>

fun IndexAny :: "string \<Rightarrow> string \<Rightarrow> nat option" where
  "IndexAny [] cs = None"
| "IndexAny (c # s) cs = (if c \<in> set cs then Some 0 else map_option Suc (IndexAny s cs))"

text \<open>\<open>strings.Split\<close> with a one-byte separator: always at least one piece.\<close>

fun Split :: "string \<Rightarrow> char \<Rightarrow> string list" where
  "Split [] d = [[]]"
| "Split (c # s) d =
     (if c = d then [] # Split s d
      else (case Split s d of [] \<Rightarrow> [[c]] | p # ps \<Rightarrow> (c # p) # ps))"

fun Join :: "string list \<Rightarrow> string \<Rightarrow> string" where
  "Join [] sep = []"
| "Join [s] sep = s"
| "Join (s # t # ss) sep = s @ sep @ Join (t # ss) sep"

text \<open>
  \<open>strings.ReplaceAll\<close> for a non-empty pattern: non-overlapping occurrences from the left.
\<close>

function ReplaceAll :: "string \<Rightarrow> string \<Rightarrow> string \<Rightarrow> string" where
  "ReplaceAll [] (b # old) new = []"
| "ReplaceAll (c # s) (b # old) new =
     (if HasPrefix (c # s) (b # old)
      then new @ ReplaceAll (drop (length old) s) (b # old) new
      else c # ReplaceAll s (b # old) new)"
| "ReplaceAll s [] new = s"
  by pat_completeness auto
termination
  by (relation "measure (\<lambda>(s, old, new). length s)") auto

lemma HasPrefix_append [simp]: "HasPrefix (p @ s) p"
  by (simp add: HasPrefix_def)

lemma HasPrefix_Nil [simp]: "HasPrefix s []"
  by (simp add: HasPrefix_def)

lemma HasPrefix_Cons [simp]:
  "HasPrefix [] (c # p) \<longleftrightarrow> False"
  "HasPrefix (d # s) (c # p) \<longleftrightarrow> d = c \<and> HasPrefix s p"
  by (auto simp: HasPrefix_def)

lemma HasPrefix_iff: "HasPrefix s p \<longleftrightarrow> (\<exists>t. s = p @ t)"
  by (metis HasPrefix_append HasPrefix_def append_take_drop_id)

lemma TrimPrefix_append [simp]: "TrimPrefix (p @ s) p = s"
  by (simp add: TrimPrefix_def)

lemma occurs_Cons:
  "(\<exists>u v. c # s = u @ p @ v) \<longleftrightarrow> HasPrefix (c # s) p \<or> (\<exists>u v. s = u @ p @ v)"
proof
  assume "\<exists>u v. c # s = u @ p @ v"
  then obtain u v where uv: "c # s = u @ p @ v" by blast
  then show "HasPrefix (c # s) p \<or> (\<exists>u v. s = u @ p @ v)"
    by (cases u) auto
next
  assume "HasPrefix (c # s) p \<or> (\<exists>u v. s = u @ p @ v)"
  then show "\<exists>u v. c # s = u @ p @ v"
  proof
    assume "HasPrefix (c # s) p"
    then obtain t where "c # s = [] @ p @ t" by (auto simp: HasPrefix_iff)
    then show ?thesis by blast
  next
    assume "\<exists>u v. s = u @ p @ v"
    then obtain u v where "c # s = (c # u) @ p @ v" by auto
    then show ?thesis by blast
  qed
qed

lemma Index_None: "Index s p = None \<longleftrightarrow> (\<nexists>u v. s = u @ p @ v)"
proof (induction s)
  case (Cons c s)
  have "Index (c # s) p = None \<longleftrightarrow> \<not> HasPrefix (c # s) p \<and> Index s p = None"
    by simp
  then show ?case by (simp only: occurs_Cons Cons.IH de_Morgan_disj)
qed simp

lemma Contains_iff: "Contains s p \<longleftrightarrow> (\<exists>u v. s = u @ p @ v)"
  by (simp only: Contains_def Index_None not_not)

lemma Index_Some: "Index s p = Some i \<Longrightarrow> s = take i s @ p @ drop (i + length p) s"
proof (induction s arbitrary: i)
  case Nil
  then show ?case by (simp split: if_splits)
next
  case (Cons c s)
  show ?case
  proof (cases "HasPrefix (c # s) p")
    case True
    with Cons.prems show ?thesis by (auto simp: HasPrefix_iff)
  next
    case False
    with Cons.prems obtain j where "Index s p = Some j" "i = Suc j" by auto
    with Cons.IH [of j] show ?thesis by simp
  qed
qed

text \<open>The first occurrence: nothing before it contains the pattern's first position.\<close>

lemma Index_append_unique:
  assumes "\<And>u v. s @ p @ t = u @ p @ v \<Longrightarrow> length s \<le> length u"
  shows "Index (s @ p @ t) p = Some (length s)"
  using assms
proof (induction s)
  case Nil
  have "HasPrefix (p @ t) p" by simp
  then show ?case by (cases "p @ t") (auto simp del: HasPrefix_append)
next
  case (Cons c s)
  have "\<not> HasPrefix (c # s @ p @ t) p"
    using Cons.prems [of "[]"] by (auto simp: HasPrefix_iff)
  moreover have "Index (s @ p @ t) p = Some (length s)"
  proof (rule Cons.IH)
    fix u v
    assume "s @ p @ t = u @ p @ v"
    then show "length s \<le> length u" using Cons.prems [of "c # u" v] by simp
  qed
  ultimately show ?case by simp
qed

lemma IndexAny_None [simp]: "set s \<inter> set cs = {} \<Longrightarrow> IndexAny s cs = None"
  by (induction s) auto

lemma IndexAny_append [simp]:
  "set s \<inter> set cs = {} \<Longrightarrow> c \<in> set cs \<Longrightarrow> IndexAny (s @ c # t) cs = Some (length s)"
  by (induction s) auto

lemma IndexAny_Some: "IndexAny s cs = Some i \<Longrightarrow> i < length s \<and> set (take i s) \<inter> set cs = {}"
  by (induction s arbitrary: i) (auto split: if_splits)

lemma Split_not_Nil [simp]: "Split s d \<noteq> []"
  by (cases s) (auto split: list.splits)

lemma Split_no_sep: "d \<notin> set s \<Longrightarrow> Split s d = [s]"
  by (induction s) auto

lemma Split_append: "d \<notin> set s \<Longrightarrow> Split (s @ d # t) d = s # Split t d"
  by (induction s) auto

lemma Split_pieces: "p \<in> set (Split s d) \<Longrightarrow> d \<notin> set p"
  by (induction s arbitrary: p) (auto split: if_splits list.splits)

lemma Split_subset: "p \<in> set (Split s d) \<Longrightarrow> set p \<subseteq> set s"
  by (induction s arbitrary: p) (fastforce split: if_splits list.splits)+

lemma Join_Split: "Join (Split s d) [d] = s"
proof (induction s)
  case (Cons c s)
  then show ?case
    by (cases "Split s d" rule: remdups_adj.cases) (auto split: list.splits)
qed simp

lemma Split_Join:
  "ss \<noteq> [] \<Longrightarrow> (\<And>s. s \<in> set ss \<Longrightarrow> d \<notin> set s) \<Longrightarrow> Split (Join ss [d]) d = ss"
  by (induction ss "[d]" rule: Join.induct) (auto simp: Split_no_sep Split_append)

lemma ReplaceAll_first:
  "Index s (b # old) = Some i \<Longrightarrow>
   ReplaceAll s (b # old) new =
     take i s @ new @ ReplaceAll (drop (i + Suc (length old)) s) (b # old) new"
proof (induction s arbitrary: i)
  case (Cons c s)
  show ?case
  proof (cases "HasPrefix (c # s) (b # old)")
    case True
    with Cons.prems show ?thesis by simp
  next
    case False
    with Cons.prems obtain j where "Index s (b # old) = Some j" "i = Suc j" by auto
    with Cons.IH [of j] False show ?thesis by auto
  qed
qed simp

lemma ReplaceAll_absent: "\<not> Contains s (b # old) \<Longrightarrow> ReplaceAll s (b # old) new = s"
proof (induction s)
  case (Cons c s)
  have "\<not> HasPrefix (c # s) (b # old)"
    using Cons.prems Contains_iff HasPrefix_iff append_Nil by metis
  moreover have "\<not> Contains s (b # old)"
    using Cons.prems append_Cons unfolding Contains_iff by metis
  ultimately show ?case using Cons.IH by (simp del: HasPrefix_Cons)
qed simp

text \<open>
  All occurrences go: the string is what lies between the occurrences, joined by the pattern, and
  nothing of the pattern lies between them.
\<close>

lemma Join_Cons: "ps \<noteq> [] \<Longrightarrow> Join (p # ps) sep = p @ sep @ Join ps sep"
  by (cases ps) simp_all

lemma Contains_first: "Index s p = Some i \<Longrightarrow> p \<noteq> [] \<Longrightarrow> \<not> Contains (take i s) p"
proof (induction s arbitrary: i)
  case (Cons c s)
  show ?case
  proof (cases "HasPrefix (c # s) p")
    case True
    then show ?thesis using Cons.prems by (auto simp: Contains_iff)
  next
    case False
    then obtain j where j: "Index s p = Some j" "i = Suc j" using Cons.prems by auto
    show ?thesis
    proof
      assume "Contains (take i (c # s)) p"
      then obtain u v where uv: "c # take j s = u @ p @ v" by (auto simp: Contains_iff j(2))
      show False
      proof (cases u)
        case Nil
        then have "c # s = p @ (v @ drop j s)" using uv by (metis append_Cons append_Nil append_assoc append_take_drop_id)
        then show False using False by (metis HasPrefix_append)
      next
        case (Cons d w)
        then have "Contains (take j s) p" using uv by (auto simp: Contains_iff)
        then show False using Cons.IH [OF j(1) Cons.prems(2)] by simp
      qed
    qed
  qed
qed (auto simp: Contains_iff split: if_splits)

lemma ReplaceAll_pieces:
  "\<exists>ps. ps \<noteq> [] \<and> s = Join ps (b # old) \<and> (\<forall>p \<in> set ps. \<not> Contains p (b # old)) \<and>
     (\<forall>new. ReplaceAll s (b # old) new = Join ps new)"
proof (induction "length s" arbitrary: s rule: less_induct)
  case less
  show ?case
  proof (cases "Index s (b # old)")
    case None
    then have "\<not> Contains s (b # old)" by (simp add: Contains_def)
    then show ?thesis by (intro exI [of _ "[s]"]) (simp add: ReplaceAll_absent)
  next
    case (Some i)
    define u where "u = drop (i + Suc (length old)) s"
    have s: "s = take i s @ (b # old) @ u" using Index_Some [OF Some] by (simp add: u_def)
    then have "length s = length (take i s @ (b # old) @ u)" by simp
    then have "length u < length s" by simp
    from less [OF this] obtain ps where ps: "ps \<noteq> []" "u = Join ps (b # old)"
      "\<forall>p \<in> set ps. \<not> Contains p (b # old)" "\<forall>new. ReplaceAll u (b # old) new = Join ps new" by blast
    have "ReplaceAll s (b # old) new = Join (take i s # ps) new" for new
      using ReplaceAll_first [OF Some] ps(1,4) by (simp add: Join_Cons u_def)
    moreover have "s = Join (take i s # ps) (b # old)" using s ps(1,2) by (simp add: Join_Cons)
    moreover have "\<not> Contains (take i s) (b # old)" by (rule Contains_first [OF Some]) simp
    ultimately show ?thesis using ps(3) by (intro exI [of _ "take i s # ps"]) simp
  qed
qed

lemma Join_empty: "Join ps [] = concat ps"
  by (induction ps "[] :: string" rule: Join.induct) auto

section \<open>White space\<close>

text \<open>
  The UTF-8 encodings of the runes for which \<open>unicode.IsSpace\<close> holds.  \<open>strings.TrimSpace\<close>
  removes them from both ends; each is valid UTF-8, so a byte string begins (ends) with such
  a rune exactly when it begins (ends) with one of these encodings.
\<close>

definition space_runes :: "string list" where
  "space_runes =
     [[CHR 0x09], [CHR 0x0A], [CHR 0x0B], [CHR 0x0C], [CHR 0x0D], [CHR 0x20],
      [CHR 0xC2, CHR 0x85], [CHR 0xC2, CHR 0xA0], [CHR 0xE1, CHR 0x9A, CHR 0x80],
      [CHR 0xE2, CHR 0x80, CHR 0x80], [CHR 0xE2, CHR 0x80, CHR 0x81],
      [CHR 0xE2, CHR 0x80, CHR 0x82], [CHR 0xE2, CHR 0x80, CHR 0x83],
      [CHR 0xE2, CHR 0x80, CHR 0x84], [CHR 0xE2, CHR 0x80, CHR 0x85],
      [CHR 0xE2, CHR 0x80, CHR 0x86], [CHR 0xE2, CHR 0x80, CHR 0x87],
      [CHR 0xE2, CHR 0x80, CHR 0x88], [CHR 0xE2, CHR 0x80, CHR 0x89],
      [CHR 0xE2, CHR 0x80, CHR 0x8A], [CHR 0xE2, CHR 0x80, CHR 0xA8],
      [CHR 0xE2, CHR 0x80, CHR 0xA9], [CHR 0xE2, CHR 0x80, CHR 0xAF],
      [CHR 0xE2, CHR 0x81, CHR 0x9F], [CHR 0xE3, CHR 0x80, CHR 0x80]]"

fun leading :: "string list \<Rightarrow> string \<Rightarrow> nat" where
  "leading [] s = 0"
| "leading (r # rs) s = (if HasPrefix s r then length r else leading rs s)"

function trim_left :: "string list \<Rightarrow> string \<Rightarrow> string" where
  "trim_left rs s =
     (if s = [] \<or> leading rs s = 0 then s else trim_left rs (drop (leading rs s) s))"
  by pat_completeness auto
termination
  by (relation "measure (\<lambda>(rs, s). length s)") auto

declare trim_left.simps [simp del]

definition TrimSpace :: "string \<Rightarrow> string" where
  "TrimSpace s = rev (trim_left (map rev space_runes) (rev (trim_left space_runes s)))"

lemma trim_left_Nil [simp]: "trim_left rs [] = []"
  by (subst trim_left.simps) simp

lemma trim_left_stop: "leading rs s = 0 \<Longrightarrow> trim_left rs s = s"
  by (subst trim_left.simps) simp

lemma trim_left_step:
  "s \<noteq> [] \<Longrightarrow> leading rs s = n \<Longrightarrow> 0 < n \<Longrightarrow> trim_left rs s = trim_left rs (drop n s)"
  by (subst trim_left.simps) simp

text \<open>ASCII characters that are not white space stop the trimming on both sides.\<close>

definition printable :: "char \<Rightarrow> bool" where
  "printable c \<longleftrightarrow> 0x20 < (of_char c :: nat) \<and> (of_char c :: nat) < 0x7F"

lemma leading_other:
  "(\<And>r. r \<in> set rs \<Longrightarrow> r \<noteq> [] \<and> hd r \<noteq> c) \<Longrightarrow> leading rs (c # s) = 0"
proof (induction rs)
  case (Cons r rs)
  then show ?case by (cases r) fastforce+
qed simp

lemma space_runes_edges:
  "\<forall>r \<in> set space_runes. r \<noteq> [] \<and> \<not> printable (hd r) \<and> \<not> printable (last r)"
  by (simp add: space_runes_def printable_def)

lemma leading_printable:
  assumes "printable c"
  shows "leading space_runes (c # s) = 0" "leading (map rev space_runes) (c # s) = 0"
proof -
  show "leading space_runes (c # s) = 0"
    using assms space_runes_edges by (intro leading_other) blast
  show "leading (map rev space_runes) (c # s) = 0"
    using assms space_runes_edges by (intro leading_other) (auto simp: hd_rev)
qed

lemma trim_left_printable [simp]:
  assumes "printable c"
  shows "trim_left space_runes (c # s) = c # s"
    and "trim_left (map rev space_runes) (c # s) = c # s"
  using assms by (auto intro!: trim_left_stop simp: leading_printable)

lemma TrimSpace_text:
  assumes "s = a # s'" "printable a" "s = s'' @ [z]" "printable z"
  shows "TrimSpace s = s" "TrimSpace (s @ [newline]) = s"
proof -
  have l: "trim_left space_runes (s @ t) = s @ t" for t using assms(1,2) by simp
  have r: "trim_left (map rev space_runes) (rev s) = rev s" using assms(3,4) by simp
  have n: "leading (map rev space_runes) (newline # t) = 1" for t
    by (simp add: space_runes_def)
  show "TrimSpace s = s" using l [of "[]"] r by (simp add: TrimSpace_def)
  show "TrimSpace (s @ [newline]) = s"
    using l [of "[newline]"] r trim_left_step [OF _ n, of _] by (simp add: TrimSpace_def)
qed

end
