(* ===== verification/Go_Numbers.thy ===== *)
theory Go_Numbers
  imports Go_Strings
begin

text \<open>
  The number conversions of \<open>strconv\<close>, the conversion of integers to \<open>float64\<close>, the line scanner of \<open>bufio\<close> and the hexadecimal
  encoding of \<open>encoding/hex\<close>, with the round trips the components rest on.
\<close>

section \<open>Decimal numbers\<close>

definition is_digit :: "char \<Rightarrow> bool" where
  "is_digit c \<longleftrightarrow> 48 \<le> (of_char c :: nat) \<and> (of_char c :: nat) \<le> 57"

definition digit_val :: "char \<Rightarrow> nat" where
  "digit_val c = of_char c - 48"

abbreviation max_uint64 :: nat where
  "max_uint64 \<equiv> 18446744073709551615"

text \<open>
  The loop of \<open>strconv.ParseUint\<close> in base 10: the first character that is not a digit is a
  syntax error, the first digit that takes the value past the maximum a range error.
\<close>

fun parse_loop :: "nat \<Rightarrow> nat \<Rightarrow> string \<Rightarrow> go_error + nat" where
  "parse_loop mx n [] = Inr n"
| "parse_loop mx n (c # s) =
     (if \<not> is_digit c then Inl ErrSyntax
      else if mx < n * 10 + digit_val c then Inl ErrRange
      else parse_loop mx (n * 10 + digit_val c) s)"

definition ParseUint :: "string \<Rightarrow> go_error + 64 word" where
  "ParseUint s =
     (if s = [] then Inl ErrSyntax
      else (case parse_loop max_uint64 0 s of Inl e \<Rightarrow> Inl e | Inr n \<Rightarrow> Inr (of_nat n)))"

text \<open>A sign before what an unsigned parser reads, within 64 bits; \<open>strconv.ParseInt\<close> in base 10, \<open>strconv.Atoi\<close>.\<close>

definition signed_parse :: "(string \<Rightarrow> go_error + 64 word) \<Rightarrow> string \<Rightarrow> go_error + int" where
  "signed_parse parse s =
     (case s of [] \<Rightarrow> Inl ErrSyntax
      | c # t \<Rightarrow>
        let neg = (c = CHR ''-''); digits = (if neg \<or> c = CHR ''+'' then t else s)
        in (case parse digits of
              Inl e \<Rightarrow> Inl e
            | Inr w \<Rightarrow>
                if \<not> neg \<and> 2 ^ 63 \<le> uint w then Inl ErrRange
                else if neg \<and> 2 ^ 63 < uint w then Inl ErrRange
                else Inr (if neg then - uint w else uint w)))"

definition ParseInt :: "string \<Rightarrow> go_error + int" where
  "ParseInt s = signed_parse ParseUint s"

definition Atoi :: "string \<Rightarrow> go_error + int" where
  "Atoi s = ParseInt s"

text \<open>The decimal digits of a number: \<open>strconv.Itoa\<close>, and what the kernel prints.\<close>

fun dec :: "nat \<Rightarrow> string" where
  "dec n = (if n < 10 then [char_of (48 + n)] else dec (n div 10) @ [char_of (48 + n mod 10)])"

declare dec.simps [simp del]

definition Itoa :: "int \<Rightarrow> string" where
  "Itoa i = (if i < 0 then CHR ''-'' # dec (nat (- i)) else dec (nat i))"

lemma digit_char: "d < 10 \<Longrightarrow> is_digit (char_of (48 + d)) \<and> digit_val (char_of (48 + d)) = d"
  by (simp add: is_digit_def digit_val_def of_char_of)

lemma dec_not_Nil [simp]: "dec n \<noteq> []"
  by (subst dec.simps) simp

lemma dec_digits: "c \<in> set (dec n) \<Longrightarrow> is_digit c"
proof (induction n rule: dec.induct)
  case (1 n)
  show ?case
  proof (cases "n < 10")
    case True
    with "1.prems" show ?thesis by (subst (asm) dec.simps) (auto simp: digit_char)
  next
    case False
    with "1.prems" have "c \<in> set (dec (n div 10)) \<or> c = char_of (48 + n mod 10)"
      by (subst (asm) dec.simps) auto
    with "1.IH" [OF False] show ?thesis by (auto simp: digit_char)
  qed
qed

lemma length_dec: "n < 10 ^ k \<Longrightarrow> 0 < k \<Longrightarrow> length (dec n) \<le> k"
proof (induction k arbitrary: n)
  case (Suc k)
  show ?case
  proof (cases "n < 10")
    case True
    then show ?thesis by (subst dec.simps) simp
  next
    case False
    then have "0 < k" using Suc.prems by (cases k) auto
    moreover have "n div 10 < 10 ^ k" using Suc.prems by (simp add: less_mult_imp_div_less)
    ultimately have "length (dec (n div 10)) \<le> k" by (intro Suc.IH)
    with False show ?thesis by (subst dec.simps) simp
  qed
qed simp

lemma digit_printable: "is_digit c \<Longrightarrow> printable c"
  by (simp add: is_digit_def printable_def)

lemma is_digit_consts [simp]:
  "\<not> is_digit newline" "\<not> is_digit space" "\<not> is_digit (CHR ''-'')" "\<not> is_digit (CHR ''+'')"
  "\<not> is_digit carriage_return"
  by (simp_all add: is_digit_def)

lemma parse_loop_append:
  "parse_loop mx n (s @ t) =
     (case parse_loop mx n s of Inl e \<Rightarrow> Inl e | Inr m \<Rightarrow> parse_loop mx m t)"
  by (induction s arbitrary: n) auto

lemma parse_loop_dec: "n \<le> mx \<Longrightarrow> parse_loop mx 0 (dec n) = Inr n"
proof (induction n rule: dec.induct)
  case (1 n)
  show ?case
  proof (cases "n < 10")
    case True
    with 1 show ?thesis by (subst dec.simps) (simp add: digit_char)
  next
    case False
    have "n div 10 * 10 + n mod 10 = n" by simp
    moreover from False "1.prems" have "parse_loop mx 0 (dec (n div 10)) = Inr (n div 10)"
      by (intro "1.IH") auto
    ultimately show ?thesis
      using False "1.prems" by (subst dec.simps) (simp add: parse_loop_append digit_char)
  qed
qed

lemma ParseUint_dec: "n \<le> max_uint64 \<Longrightarrow> ParseUint (dec n) = Inr (of_nat n)"
  by (simp add: ParseUint_def parse_loop_dec)

lemma parse_loop_bound: "parse_loop mx n s = Inr m \<Longrightarrow> n \<le> mx \<Longrightarrow> m \<le> mx"
  by (induction s arbitrary: n) (auto split: if_splits)

lemma parse_loop_Inr_digits: "parse_loop mx n s = Inr m \<Longrightarrow> c \<in> set s \<Longrightarrow> is_digit c"
  by (induction s arbitrary: n) (auto split: if_splits)

lemma ParseUint_digits:
  "ParseUint s = Inr w \<Longrightarrow> s \<noteq> [] \<and> (\<forall>c \<in> set s. is_digit c)"
  by (auto simp: ParseUint_def dest: parse_loop_Inr_digits split: if_splits sum.splits)

lemma ParseUint_bad: "c \<in> set s \<Longrightarrow> \<not> is_digit c \<Longrightarrow> \<exists>e. ParseUint s = Inl e"
  using ParseUint_digits by (cases "ParseUint s") blast+

lemma uint_of_nat64: "n < 2 ^ 64 \<Longrightarrow> uint (of_nat n :: 64 word) = int n"
  by (simp add: unsigned_of_nat take_bit_nat_eq_self)

lemma ParseInt_range:
  assumes "ParseInt s = Inr i"
  shows "- (2 ^ 63) \<le> i \<and> i < 2 ^ 63"
proof -
  have "0 \<le> uint w" for w :: "64 word" by simp
  then have "- (2 ^ 63) \<le> uint w" "- uint w < 2 ^ 63" for w :: "64 word"
    by (smt (verit) zero_less_power)+
  with assms show ?thesis
    by (auto simp: ParseInt_def signed_parse_def Let_def split: list.splits sum.splits if_splits)
qed

lemma dec_hd: "c \<in> {CHR ''-'', CHR ''+''} \<Longrightarrow> dec n = d # s \<Longrightarrow> d \<noteq> c"
  using dec_digits [of d n] by auto

lemma signed_parse_dec:
  assumes "n < 2 ^ 63" "parse (dec n) = Inr (of_nat n)"
  shows "signed_parse parse (dec n) = Inr (int n)"
proof -
  obtain d s where ds: "dec n = d # s" by (cases "dec n") auto
  have "d \<noteq> CHR ''-''" "d \<noteq> CHR ''+''" using dec_hd [OF _ ds] by auto
  moreover have "uint (of_nat n :: 64 word) = int n"
    using assms by (intro uint_of_nat64) simp
  ultimately show ?thesis
    using assms by (simp add: ds signed_parse_def)
qed

lemma ParseInt_dec: "n < 2 ^ 63 \<Longrightarrow> ParseInt (dec n) = Inr (int n)"
  by (simp add: ParseInt_def signed_parse_dec ParseUint_dec)

lemma signed_parse_Itoa:
  assumes "- (2 ^ 63) < i" "i < 2 ^ 63" "\<And>n. n < 2 ^ 63 \<Longrightarrow> parse (dec n) = Inr (of_nat n)"
  shows "signed_parse parse (Itoa i) = Inr i"
proof (cases "i < 0")
  case False
  with assms show ?thesis by (simp add: Itoa_def signed_parse_dec)
next
  case True
  define n where "n = nat (- i)"
  have n: "n < 2 ^ 63" "int n = - i" using assms(1,2) True by (auto simp: n_def)
  have "uint (of_nat n :: 64 word) = int n"
    using n by (intro uint_of_nat64) simp
  with n True assms(3) show ?thesis
    by (simp add: Itoa_def signed_parse_def flip: n_def)
qed

lemma Atoi_Itoa: "- (2 ^ 63) < i \<Longrightarrow> i < 2 ^ 63 \<Longrightarrow> Atoi (Itoa i) = Inr i"
  unfolding Atoi_def ParseInt_def by (rule signed_parse_Itoa) (simp_all add: ParseUint_dec)

section \<open>The line scanner\<close>

text \<open>
  \<open>bufio.Scanner\<close> with \<open>bufio.ScanLines\<close>: the lines without their newline, a last line that
  is not terminated included, one trailing carriage return dropped from each.  The buffer
  holds at most 64 KiB, so the scan stops with \<open>bufio.ErrTooLong\<close> at the first line of 65536
  bytes or more.
\<close>

fun raw_lines :: "string \<Rightarrow> string list" where
  "raw_lines [] = []"
| "raw_lines (c # s) =
     (if c = newline then [] # raw_lines s
      else (case raw_lines s of [] \<Rightarrow> [[c]] | l # ls \<Rightarrow> (c # l) # ls))"

definition dropCR :: "string \<Rightarrow> string" where
  "dropCR l = (if l \<noteq> [] \<and> last l = carriage_return then butlast l else l)"

abbreviation MaxScanTokenSize :: nat where
  "MaxScanTokenSize \<equiv> 65536"

definition fits :: "string \<Rightarrow> bool" where
  "fits l \<longleftrightarrow> length l < MaxScanTokenSize"

definition ScanLines :: "string \<Rightarrow> string list \<times> go_error option" where
  "ScanLines s =
     (let ls = raw_lines s
      in (map dropCR (takeWhile fits ls), if list_all fits ls then None else Some ErrTooLong))"

lemma raw_lines_line: "newline \<notin> set l \<Longrightarrow> raw_lines (l @ newline # s) = l # raw_lines s"
  by (induction l) auto

lemma raw_lines_no_newline: "l \<in> set (raw_lines s) \<Longrightarrow> newline \<notin> set l"
  by (induction s arbitrary: l) (auto split: if_splits list.splits)

text \<open>A file of newline-terminated lines, as the kernel writes one.\<close>

fun unlines :: "string list \<Rightarrow> string" where
  "unlines [] = []"
| "unlines (l # ls) = l @ newline # unlines ls"

lemma raw_lines_unlines: "\<forall>l \<in> set ls. newline \<notin> set l \<Longrightarrow> raw_lines (unlines ls) = ls"
  by (induction ls) (auto simp: raw_lines_line)

definition plain_line :: "string \<Rightarrow> bool" where
  "plain_line l \<longleftrightarrow> newline \<notin> set l \<and> carriage_return \<notin> set l \<and> fits l"

lemma dropCR_plain: "plain_line l \<Longrightarrow> dropCR l = l"
  by (auto simp: plain_line_def dropCR_def dest: last_in_set)

lemma ScanLines_unlines:
  assumes "list_all plain_line ls"
  shows "ScanLines (unlines ls) = (ls, None)"
proof -
  have "raw_lines (unlines ls) = ls"
    using assms by (auto intro: raw_lines_unlines simp: list_all_iff plain_line_def)
  moreover have all: "list_all fits ls" using assms by (auto simp: list_all_iff plain_line_def)
  moreover have tw: "takeWhile fits ls = ls" using all unfolding takeWhile_eq_all_conv list_all_iff .
  moreover have "map dropCR ls = ls"
    using assms by (auto simp: list_all_iff dropCR_plain intro: map_idI)
  ultimately show ?thesis by (simp add: ScanLines_def Let_def tw)
qed

section \<open>Integers as floating point numbers\<close>

text \<open>
  Go's \<open>float64(n)\<close> for an integer: the nearest number with a mantissa of 53 bits, of two equally
  near ones that with the even mantissa.  The mantissa of \<open>n\<close> is what is left of it when its
  low \<open>float_exp n\<close> bits are rounded away.  For the integers of Go, at most 64 bits, the exponent
  is far from overflow.
\<close>

fun float_exp :: "nat \<Rightarrow> nat" where
  "float_exp n = (if n < 2 ^ 53 then 0 else Suc (float_exp (n div 2)))"

declare float_exp.simps [simp del]

definition round_even :: "nat \<Rightarrow> nat \<Rightarrow> nat" where
  "round_even n e =
     (let q = n div 2 ^ e; r = n mod 2 ^ e
      in if 2 * r < 2 ^ e \<or> 2 * r = 2 ^ e \<and> even q then q else Suc q)"

definition float64 :: "nat \<Rightarrow> nat" where
  "float64 n = round_even n (float_exp n) * 2 ^ float_exp n"

definition float64_int :: "int \<Rightarrow> int" where
  "float64_int i = (if i < 0 then - int (float64 (nat (- i))) else int (float64 (nat i)))"

lemma float64_small: "n < 2 ^ 53 \<Longrightarrow> float64 n = n"
  by (simp add: float64_def round_even_def float_exp.simps [of n] Let_def)

lemma float64_0 [simp]: "float64 0 = 0"
  by (simp add: float64_small)

lemma float64_2_53: "float64 (2 ^ 53) = 2 ^ 53"
  by (simp add: float64_def round_even_def float_exp.simps Let_def)

lemma float64_exact: "n \<le> 2 ^ 53 \<Longrightarrow> float64 n = n"
  using float64_small [of n] float64_2_53 le_neq_implies_less by metis

lemma float_exp_mantissa: "n div 2 ^ float_exp n < 2 ^ 53 \<and> (0 < float_exp n \<longrightarrow> 2 ^ (52 + float_exp n) \<le> n)"
proof (induction n rule: float_exp.induct)
  case (1 n)
  show ?case
  proof (cases "n < 2 ^ 53")
    case False
    then have e: "float_exp n = Suc (float_exp (n div 2))" by (simp add: float_exp.simps [of n])
    note IH = "1.IH" [OF False]
    have "2 ^ (52 + float_exp n) \<le> n"
    proof (cases "float_exp (n div 2)")
      case 0
      then show ?thesis using False e by simp
    next
      case (Suc m)
      then have "2 ^ (52 + float_exp (n div 2)) \<le> n div 2" using IH by (simp only: zero_less_Suc simp_thms)
      then have "2 * 2 ^ (52 + float_exp (n div 2)) \<le> n" by linarith
      then show ?thesis by (simp only: e add_Suc_right power_Suc)
    qed
    then show ?thesis using IH by (simp add: e div_mult2_eq)
  qed (simp add: float_exp.simps [of n])
qed

text \<open>A rounded value is within half a unit of the last place, and its mantissa fits.\<close>

lemma round_even_bounds:
  "2 * (round_even n e * 2 ^ e) \<le> 2 * n + 2 ^ e" "2 * n \<le> 2 * (round_even n e * 2 ^ e) + 2 ^ e"
proof -
  define q r where "q = n div 2 ^ e" and "r = n mod 2 ^ e"
  have n: "n = q * 2 ^ e + r" and r: "r < 2 ^ e"
    by (simp_all only: q_def r_def div_mult_mod_eq) simp
  show "2 * (round_even n e * 2 ^ e) \<le> 2 * n + 2 ^ e" "2 * n \<le> 2 * (round_even n e * 2 ^ e) + 2 ^ e"
    unfolding round_even_def Let_def q_def [symmetric] r_def [symmetric] using r by (auto simp: n)
qed

lemma float64_mantissa: "\<exists>m e. float64 n = m * 2 ^ e \<and> m \<le> 2 ^ 53"
  using float_exp_mantissa [of n]
  by (intro exI [of _ "round_even n (float_exp n)"] exI [of _ "float_exp n"])
    (simp add: float64_def round_even_def Let_def)

lemma float64_error: "\<bar>int (float64 n) - int n\<bar> * 2 ^ 53 \<le> int n"
proof (cases "float_exp n")
  case 0
  then have "n < 2 ^ 53" by (simp add: float_exp.simps [of n] split: if_splits)
  then show ?thesis by (simp add: float64_small)
next
  case (Suc m)
  define x e where "x = float64 n" and "e = float_exp n"
  have b: "2 * x \<le> 2 * n + 2 ^ e" "2 * n \<le> 2 * x + 2 ^ e"
    using round_even_bounds [of n e] by (simp_all add: x_def e_def float64_def)
  have p: "(2 :: nat) ^ (52 + e) \<le> n" using float_exp_mantissa [of n] Suc by (simp add: e_def)
  have "int (2 * x) \<le> int (2 * n + 2 ^ e)" "int (2 * n) \<le> int (2 * x + 2 ^ e)"
    using b by (simp_all only: of_nat_le_iff)
  then have "2 * (int x - int n) \<le> 2 ^ e" "2 * (int n - int x) \<le> 2 ^ e" by simp_all
  then have "2 * \<bar>int x - int n\<bar> \<le> 2 ^ e" unfolding abs_if by simp
  then have "\<bar>int x - int n\<bar> * 2 ^ 53 \<le> 2 ^ (52 + e)" by (simp add: power_add)
  also have "\<dots> \<le> int n" using p by (metis of_nat_le_iff of_nat_numeral of_nat_power)
  finally show ?thesis by (simp add: x_def)
qed

section \<open>Hexadecimal encoding\<close>

definition hex_digit :: "nat \<Rightarrow> char" where
  "hex_digit n = (if n < 10 then char_of (48 + n) else char_of (87 + n))"

fun EncodeToString :: "8 word list \<Rightarrow> string" where
  "EncodeToString [] = []"
| "EncodeToString (b # bs) =
     hex_digit (unat b div 16) # hex_digit (unat b mod 16) # EncodeToString bs"

definition hex_val :: "char \<Rightarrow> nat" where
  "hex_val c = (if of_char c < (58 :: nat) then of_char c - 48 else of_char c - 87)"

lemma hex_val_digit: "n < 16 \<Longrightarrow> hex_val (hex_digit n) = n"
  by (simp add: hex_val_def hex_digit_def of_char_of)

lemma length_EncodeToString [simp]: "length (EncodeToString bs) = 2 * length bs"
  by (induction bs) auto

lemma hex_digit_inj: "m < 16 \<Longrightarrow> n < 16 \<Longrightarrow> hex_digit m = hex_digit n \<longleftrightarrow> m = n"
  by (metis hex_val_digit)

lemma nibbles_lt [simp]: "unat (b :: 8 word) div 16 < 16" "unat (b :: 8 word) mod 16 < 16"
  using unsigned_less [of b, where 'a = nat] by auto

lemma EncodeToString_inj: "EncodeToString bs = EncodeToString cs \<Longrightarrow> bs = cs"
proof (induction bs arbitrary: cs)
  case Nil
  then show ?case by (cases cs) auto
next
  case (Cons b bs)
  then obtain c cs' where cs: "cs = c # cs'" by (cases cs) auto
  with Cons.prems have "unat b div 16 = unat c div 16" "unat b mod 16 = unat c mod 16"
    and bs: "EncodeToString bs = EncodeToString cs'"
    by (auto simp: hex_digit_inj)
  then have "unat b = unat c" by (metis div_mult_mod_eq)
  with Cons.IH [OF bs] cs show ?case by (simp add: word_unat_eq_iff)
qed

definition is_hex :: "char \<Rightarrow> bool" where
  "is_hex c \<longleftrightarrow> c \<in> set ''0123456789abcdef''"

lemma hex_digit_is_hex: "n < 16 \<Longrightarrow> is_hex (hex_digit n)"
proof -
  assume "n < 16"
  then have "n \<in> {0..<16}" by simp
  then have "n \<in> set [0..<16]" by simp
  moreover have "\<forall>n \<in> set [0..<16]. is_hex (hex_digit n)" by code_simp
  ultimately show ?thesis by blast
qed

lemma EncodeToString_hex: "c \<in> set (EncodeToString bs) \<Longrightarrow> is_hex c"
  by (induction bs) (auto simp: hex_digit_is_hex)

end
