(* ===== verification/Go_Path.thy ===== *)
theory Go_Path
  imports Go_Numbers
begin

text \<open>
  The lexical path functions of Go's \<open>path\<close> and \<open>path/filepath\<close> on Unix: \<open>Clean\<close>,
  \<open>Base\<close>, \<open>Dir\<close> and \<open>Join\<close>.  \<open>Clean\<close> is given by the elements of the path: empty and
  \<open>.\<close> elements are dropped, \<open>..\<close> removes the element before it, except that it is dropped
  at the start of a rooted path and kept at the start of a relative one.
\<close>

abbreviation slash :: char where "slash \<equiv> CHR ''/''"

fun clean_elems :: "bool \<Rightarrow> string list \<Rightarrow> string list \<Rightarrow> string list" where
  "clean_elems rooted out [] = rev out"
| "clean_elems rooted out (e # es) =
     (if e = [] \<or> e = ''.'' then clean_elems rooted out es
      else if e = ''..'' then
        (case out of
           [] \<Rightarrow> clean_elems rooted (if rooted then [] else [''..'']) es
         | u # us \<Rightarrow> clean_elems rooted (if u = ''..'' then ''..'' # out else us) es)
      else clean_elems rooted (e # out) es)"

definition Clean :: "string \<Rightarrow> string" where
  "Clean p =
     (if p = [] then ''.''
      else let rooted = (hd p = slash); es = clean_elems rooted [] (Split p slash)
           in if rooted then slash # Join es [slash]
              else if es = [] then ''.'' else Join es [slash])"

text \<open>\<open>Base\<close>: the last element, trailing slashes removed.\<close>

definition Base :: "string \<Rightarrow> string" where
  "Base p =
     (if p = [] then ''.''
      else let q = rev (dropWhile (\<lambda>c. c = slash) (rev p))
           in if q = [] then ''/'' else last (Split q slash))"

text \<open>\<open>Dir\<close>: everything up to and including the last slash, cleaned.\<close>

definition Dir :: "string \<Rightarrow> string" where
  "Dir p = Clean (rev (dropWhile (\<lambda>c. c \<noteq> slash) (rev p)))"

text \<open>\<open>filepath.Join\<close> and \<open>path.Join\<close>: leading empty elements are ignored.\<close>

definition path_Join :: "string list \<Rightarrow> string" where
  "path_Join es =
     (let fs = dropWhile (\<lambda>e. e = []) es
      in if fs = [] then [] else Clean (Join fs [slash]))"

section \<open>Ordinary paths\<close>

text \<open>
  An ordinary element is not empty, not \<open>.\<close> or \<open>..\<close>, and has no slash.  Absolute paths of
  ordinary elements are what the kernel's files have; the functions act on them as expected.
\<close>

definition plain_elem :: "string \<Rightarrow> bool" where
  "plain_elem e \<longleftrightarrow> e \<noteq> [] \<and> e \<noteq> ''.'' \<and> e \<noteq> ''..'' \<and> slash \<notin> set e"

definition abs_path :: "string list \<Rightarrow> string" where
  "abs_path es = slash # Join es [slash]"

lemma plain_elemD:
  "plain_elem e \<Longrightarrow> e \<noteq> []" "plain_elem e \<Longrightarrow> slash \<notin> set e"
  by (auto simp: plain_elem_def)

lemma clean_elems_plain: "list_all plain_elem es \<Longrightarrow> clean_elems r out es = rev out @ es"
  by (induction es arbitrary: out) (auto simp: plain_elem_def)

lemma clean_elems_Nil [simp]: "clean_elems r out ([] # es) = clean_elems r out es"
  by simp

lemma clean_elems_snoc_Nil: "clean_elems r out (es @ [[]]) = clean_elems r out es"
  by (induction r out es rule: clean_elems.induct) (auto split: list.splits)

lemma Split_Join_plain: "es \<noteq> [] \<Longrightarrow> list_all plain_elem es \<Longrightarrow> Split (Join es [slash]) slash = es"
  by (rule Split_Join) (auto simp: list_all_iff plain_elem_def)

lemma Join_append:
  "xs \<noteq> [] \<Longrightarrow> ys \<noteq> [] \<Longrightarrow> Join (xs @ ys) sep = Join xs sep @ sep @ Join ys sep"
proof (induction xs sep rule: Join.induct)
  case (2 s sep)
  then show ?case by (cases ys) auto
qed auto

lemma Clean_abs_path:
  assumes "list_all plain_elem es"
  shows "Clean (abs_path es) = abs_path es"
proof (cases "es = []")
  case True
  then show ?thesis by (simp add: Clean_def abs_path_def Let_def)
next
  case False
  then have "clean_elems True [] (Split (Join es [slash]) slash) = es"
    using assms by (simp add: Split_Join_plain clean_elems_plain)
  then show ?thesis by (simp add: Clean_def abs_path_def Let_def)
qed

lemma Join_snoc: "Join (es @ [f]) [slash] = (if es = [] then f else Join es [slash] @ slash # f)"
  using Join_append [of es "[f]" "[slash]"] by simp

lemma dropWhile_rev_file:
  "slash \<notin> set f \<Longrightarrow> rev (dropWhile (\<lambda>c. c \<noteq> slash) (rev (p @ slash # f))) = p @ [slash]"
proof -
  assume f: "slash \<notin> set f"
  have "dropWhile (\<lambda>c. c \<noteq> slash) (rev f @ slash # rev p) = slash # rev p"
    using f by (subst dropWhile_append2) auto
  then show ?thesis by simp
qed

lemma abs_path_snoc: "abs_path (es @ [f]) = (if es = [] then slash # f else abs_path es @ slash # f)"
  by (simp add: abs_path_def Join_snoc)

lemma Dir_abs_path:
  assumes "list_all plain_elem es" "plain_elem f"
  shows "Dir (abs_path (es @ [f])) = abs_path es"
proof (cases "es = []")
  case True
  with assms show ?thesis
    using dropWhile_rev_file [of f "[]"]
    by (simp add: Dir_def abs_path_snoc plain_elemD) (simp add: Clean_def abs_path_def Let_def)
next
  case False
  have "rev (dropWhile (\<lambda>c. c \<noteq> slash) (rev (abs_path (es @ [f])))) = abs_path es @ [slash]"
    using dropWhile_rev_file [of f "abs_path es"] assms False by (simp add: abs_path_snoc plain_elemD)
  moreover have "Split (Join es [slash] @ [slash]) slash = es @ [[]]"
    using Split_Join [of "es @ [[]]" slash] assms False
    by (fastforce simp: Join_snoc list_all_iff plain_elem_def)
  ultimately show ?thesis
    using assms False
    by (simp add: Dir_def Clean_def Let_def abs_path_def clean_elems_snoc_Nil clean_elems_plain)
qed

lemma Base_file:
  assumes "plain_elem f"
  shows "Base (p @ slash # f) = f" and "Base f = f"
proof -
  have f: "f \<noteq> []" "slash \<notin> set f" using assms by (auto simp: plain_elem_def)
  have strip: "rev (dropWhile (\<lambda>c. c = slash) (rev (q @ f))) = q @ f" for q
  proof -
    obtain g z where z: "f = g @ [z]" using f(1) by (cases f rule: rev_cases) auto
    with f(2) have "z \<noteq> slash" by auto
    with z show ?thesis by simp
  qed
  have last: "last (Split (q @ slash # f) slash) = f \<and> 1 < length (Split (q @ slash # f) slash)" for q
  proof (induction q)
    case (Cons c q)
    then show ?case by (auto split: list.splits)
  qed (simp add: Split_no_sep f)
  show "Base (p @ slash # f) = f"
    using strip [of "p @ [slash]"] last [of p] by (simp add: Base_def Let_def)
  show "Base f = f"
    using strip [of "[]"] f by (simp add: Base_def Let_def Split_no_sep)
qed

lemma path_Join_abs_path:
  assumes "list_all plain_elem es" "plain_elem f"
  shows "path_Join [abs_path es, f] = abs_path (es @ [f])"
proof -
  have j: "path_Join [abs_path es, f] = Clean (abs_path es @ slash # f)"
    by (simp add: path_Join_def Let_def abs_path_def)
  show ?thesis
  proof (cases "es = []")
    case True
    have "Clean (slash # slash # f) = slash # f"
      using assms clean_elems_plain [of "[f]"]
      by (simp add: Clean_def Let_def Split_no_sep plain_elemD del: clean_elems.simps(2))
    with j True show ?thesis by (simp add: abs_path_def)
  next
    case False
    with j assms Clean_abs_path [of "es @ [f]"] show ?thesis by (simp add: abs_path_snoc)
  qed
qed

section \<open>Clean is idempotent\<close>

text \<open>The elements \<open>Clean\<close> leaves: ordinary ones after some leading \<open>..\<close>, none if rooted.\<close>

definition cleaned :: "bool \<Rightarrow> string list \<Rightarrow> bool" where
  "cleaned rooted es \<longleftrightarrow>
     (\<exists>n es'. es = replicate n ''..'' @ es' \<and> (rooted \<longrightarrow> n = 0) \<and> list_all plain_elem es')"

lemma cleaned_clean_elems:
  assumes "cleaned r (rev out)" "\<And>e. e \<in> set es \<Longrightarrow> slash \<notin> set e"
  shows "cleaned r (clean_elems r out es)"
  using assms
proof (induction r out es rule: clean_elems.induct)
  case (2 r out e es)
  from "2.prems"(1) obtain n es' where out: "rev out = replicate n ''..'' @ es'"
    and n: "r \<longrightarrow> n = 0" and es': "list_all plain_elem es'"
    unfolding cleaned_def by blast
  consider (skip) "e = [] \<or> e = ''.''" | (up) "e = ''..''" | (push) "plain_elem e"
    using "2.prems"(2) [of e] by (auto simp: plain_elem_def)
  then show ?case
  proof cases
    case skip
    then show ?thesis using 2 by auto
  next
    case push
    have "rev (e # out) = replicate n ''..'' @ (es' @ [e])" using out by simp
    moreover have "list_all plain_elem (es' @ [e])" using es' push by simp
    ultimately have "cleaned r (rev (e # out))" using n unfolding cleaned_def by blast
    with push "2.IH"(4) "2.prems"(2) show ?thesis by (auto simp: plain_elem_def)
  next
    case up
    show ?thesis
    proof (cases out)
      case Nil
      have "cleaned r (rev (if r then [] else [''..'']))"
        unfolding cleaned_def by (auto intro: exI [of _ "1 :: nat"])
      with Nil up "2.IH"(2) "2.prems"(2) show ?thesis by auto
    next
      case (Cons u us)
      have "cleaned r (rev (if u = ''..'' then ''..'' # out else us))"
      proof (cases es' rule: rev_cases)
        case Nil
        with out Cons have u: "rev us @ [u] = replicate n ''..''" by simp
        then obtain m where m: "n = Suc m" by (cases n) auto
        with u have "u = ''..''" "rev us = replicate m ''..''"
          by (auto simp: replicate_append_same [symmetric])
        moreover have "\<not> r" using m n by auto
        moreover have "rev (''..'' # out) = replicate (Suc n) ''..'' @ []"
          using out Nil by (simp add: replicate_append_same)
        ultimately show ?thesis unfolding cleaned_def by (metis list.pred_inject(1))
      next
        case (snoc ys y)
        with out Cons have "u = y" "rev us = replicate n ''..'' @ ys" by auto
        moreover have "y \<noteq> ''..''" "list_all plain_elem ys"
          using es' snoc by (auto simp: plain_elem_def)
        ultimately show ?thesis using n unfolding cleaned_def by auto
      qed
      with Cons up "2.IH"(3) "2.prems"(2) show ?thesis by auto
    qed
  qed
qed auto

lemma clean_elems_cleaned:
  assumes "cleaned r es"
  shows "clean_elems r [] es = es"
proof -
  from assms obtain n es' where es: "es = replicate n ''..'' @ es'" "r \<longrightarrow> n = 0"
    "list_all plain_elem es'" unfolding cleaned_def by blast
  have dots: "\<not> r \<Longrightarrow> clean_elems r (replicate m ''..'') (replicate k ''..'' @ ys) =
      clean_elems r (replicate (k + m) ''..'') ys" for m k ys
  proof (induction k arbitrary: m)
    case (Suc k)
    have "clean_elems r (replicate m ''..'') (replicate (Suc k) ''..'' @ ys) =
        clean_elems r (replicate (Suc m) ''..'') (replicate k ''..'' @ ys)"
      using Suc.prems by (cases m) auto
    also have "\<dots> = clean_elems r (replicate (k + Suc m) ''..'') ys"
      using Suc.prems by (rule Suc.IH)
    finally show ?case by simp
  qed simp
  show ?thesis
  proof (cases r)
    case True
    with es show ?thesis by (simp add: clean_elems_plain)
  next
    case False
    with es dots [of 0 n es'] show ?thesis by (simp add: clean_elems_plain)
  qed
qed

lemma cleaned_no_slash:
  assumes "cleaned r es" "e \<in> set es"
  shows "slash \<notin> set e \<and> e \<noteq> []"
proof -
  from assms(1) obtain n es' where "es = replicate n ''..'' @ es'" "list_all plain_elem es'"
    unfolding cleaned_def by blast
  with assms(2) have "e = ''..'' \<or> plain_elem e" by (auto simp: list_all_iff)
  then show ?thesis by (auto simp: plain_elem_def)
qed

lemma Clean_Clean: "Clean (Clean p) = Clean p"
proof (cases "p = []")
  case True
  have "Clean ''.'' = ''.''" by code_simp
  with True show ?thesis by (simp add: Clean_def)
next
  case False
  define r where "r = (hd p = slash)"
  define es where "es = clean_elems r [] (Split p slash)"
  have "cleaned r es" unfolding es_def
    by (rule cleaned_clean_elems) (auto simp: cleaned_def dest: Split_pieces)
  note ok = this clean_elems_cleaned [OF this] cleaned_no_slash [OF this]
  have p: "Clean p = (if r then slash # Join es [slash] else if es = [] then ''.'' else Join es [slash])"
    using False by (simp add: Clean_def Let_def r_def es_def)
  show ?thesis
  proof (cases "es = []")
    case True
    have "Clean [slash] = [slash]" "Clean ''.'' = ''.''" by code_simp+
    with True p show ?thesis by (cases r) simp_all
  next
    case False
    have s: "Split (Join es [slash]) slash = es"
      using False ok(3) by (intro Split_Join) blast+
    obtain e es' where e: "es = e # es'" using False by (cases es) auto
    with ok(3) have "e \<noteq> []" "slash \<notin> set e" by auto
    then have "Join es [slash] \<noteq> []" "hd (Join es [slash]) \<noteq> slash"
      using e by (cases es'; cases e; auto)+
    with s ok(2) False p show ?thesis by (cases r) (simp_all add: Clean_def Let_def)
  qed
qed

end
