(* ===== verification/Cgroup.thy ===== *)
theory Cgroup
  imports Go_Path
begin

text \<open>
  Model of \<open>internal/crocochrome/cgroup.go\<close>: where the OOM-kill counter of the process's cgroup
  is found, and how it is read.  The files of the machine and the \<open>prometheus/procfs\<close> library
  are parameters.
\<close>

section \<open>The outside: files and procfs\<close>

text \<open>
  What opening a file and reading it to the end gives: no such file, another error of the
  open, or the bytes read, with the error that ended the read if it was not the end of file.
\<close>

datatype file_state = Absent | OpenErr go_error | Contents string "go_error option"

record filesystem =
  fs_open :: "string \<Rightarrow> file_state"
  fs_stat :: "string \<Rightarrow> go_error option"

definition ReadFile :: "filesystem \<Rightarrow> string \<Rightarrow> go_error + string" where
  "ReadFile fs p =
     (case fs_open fs p of
        Absent \<Rightarrow> Inl ErrNotExist
      | OpenErr e \<Rightarrow> Inl e
      | Contents d None \<Rightarrow> Inr d
      | Contents d (Some e) \<Rightarrow> Inl e)"

record cgroup =
  Controllers :: "string list"
  Path :: string

record proc_status =
  VmRSS :: "64 word"
  VmHWM :: "64 word"
  CapEff :: "64 word"

text \<open>The calls of \<open>prometheus/procfs\<close>, each with the mount point it was opened at.\<close>

record procfs =
  NewFS :: "string \<Rightarrow> go_error option"
  Self :: "string \<Rightarrow> go_error + int"
  Cgroups :: "string \<Rightarrow> int \<Rightarrow> go_error + cgroup list"
  Proc :: "string \<Rightarrow> int \<Rightarrow> go_error option"
  NewStatus :: "string \<Rightarrow> int \<Rightarrow> go_error + proc_status"

section \<open>Finding the counter\<close>

definition cgroupV2MemoryEvents :: string where
  "cgroupV2MemoryEvents = ''/sys/fs/cgroup/memory.events''"

definition cgroupV1OOMControl :: "string \<Rightarrow> string" where
  "cgroupV1OOMControl path = ''/sys/fs/cgroup/memory'' @ path @ ''/memory.oom_control''"

text \<open>The inner loop over one cgroup's controllers, then the loop over the cgroups.\<close>

fun has_memory :: "string list \<Rightarrow> bool" where
  "has_memory [] = False"
| "has_memory (c # cs) = (if c = ''memory'' then True else has_memory cs)"

fun memory_path :: "cgroup list \<Rightarrow> string" where
  "memory_path [] = []"
| "memory_path (cg # cgs) =
     (if has_memory (Controllers cg) then cgroupV1OOMControl (Path cg) else memory_path cgs)"

definition cgroupV1MemoryOOMControlPath :: "procfs \<Rightarrow> string \<Rightarrow> string" where
  "cgroupV1MemoryOOMControlPath pf procRoot =
     (case NewFS pf procRoot of
        Some _ \<Rightarrow> []
      | None \<Rightarrow>
          (case Self pf procRoot of
             Inl _ \<Rightarrow> []
           | Inr self \<Rightarrow>
               (case Cgroups pf procRoot self of
                  Inl _ \<Rightarrow> []
                | Inr cgs \<Rightarrow> memory_path cgs)))"

definition detectCgroupMemoryEventsPath :: "filesystem \<Rightarrow> procfs \<Rightarrow> string \<Rightarrow> string" where
  "detectCgroupMemoryEventsPath fs pf procRoot =
     (if fs_stat fs cgroupV2MemoryEvents = None then cgroupV2MemoryEvents
      else cgroupV1MemoryOOMControlPath pf procRoot)"

section \<open>Reading the counter\<close>

definition oom_kill_prefix :: string where
  "oom_kill_prefix = ''oom_kill ''"

text \<open>The scan loop: the first line with the prefix decides, \<open>None\<close> if there is none.\<close>

fun scan_oom_kill :: "string \<Rightarrow> string list \<Rightarrow> (go_error + 64 word) option" where
  "scan_oom_kill path [] = None"
| "scan_oom_kill path (line # lines) =
     (if \<not> HasPrefix line oom_kill_prefix then scan_oom_kill path lines
      else (case ParseUint (TrimPrefix line oom_kill_prefix) of
              Inl e \<Rightarrow> Some (Inl (Errorf ''parsing oom_kill value from %q: %w'' [Base path] (Some e)))
            | Inr val \<Rightarrow> Some (Inr val)))"

text \<open>The error of the scanner: a line too long, else the error that ended the read.\<close>

definition scanner_err :: "go_error option \<Rightarrow> go_error option \<Rightarrow> go_error option" where
  "scanner_err too_long read_err = (case too_long of Some e \<Rightarrow> Some e | None \<Rightarrow> read_err)"

definition readOOMKillCount :: "filesystem \<Rightarrow> string \<Rightarrow> go_error + 64 word" where
  "readOOMKillCount fs path =
     (if path = [] then Inr 0
      else (case fs_open fs path of
              Absent \<Rightarrow> Inr 0
            | OpenErr e \<Rightarrow>
                Inl (Errorf ''opening cgroup memory events file %q: %w'' [path] (Some e))
            | Contents d read_err \<Rightarrow>
                (let (lines, too_long) = ScanLines d
                 in (case scan_oom_kill path lines of
                       Some r \<Rightarrow> r
                     | None \<Rightarrow>
                         (case scanner_err too_long read_err of
                            Some e \<Rightarrow>
                              Inl (Errorf ''scanning cgroup memory events file %q: %w'' [path] (Some e))
                          | None \<Rightarrow> Inr 0)))))"

section \<open>Properties\<close>

lemma has_memory_iff: "has_memory cs \<longleftrightarrow> ''memory'' \<in> set cs"
  by (induction cs) auto

lemma memory_path_find:
  "memory_path cgs =
     (case find (\<lambda>cg. ''memory'' \<in> set (Controllers cg)) cgs of
        None \<Rightarrow> [] | Some cg \<Rightarrow> cgroupV1OOMControl (Path cg))"
  by (induction cgs) (auto simp: has_memory_iff)

lemma scan_oom_kill_None:
  "scan_oom_kill path ls = None \<longleftrightarrow> (\<forall>l \<in> set ls. \<not> HasPrefix l oom_kill_prefix)"
  by (induction ls) (auto split: sum.splits)

lemma scan_oom_kill_skip:
  "\<forall>l \<in> set ls. \<not> HasPrefix l oom_kill_prefix \<Longrightarrow>
   scan_oom_kill path (ls @ ms) = scan_oom_kill path ms"
  by (induction ls) auto

lemma scan_oom_kill_hit:
  "scan_oom_kill path ((oom_kill_prefix @ v) # ms) =
     Some (case ParseUint v of
             Inl e \<Rightarrow> Inl (Errorf ''parsing oom_kill value from %q: %w'' [Base path] (Some e))
           | Inr n \<Rightarrow> Inr n)"
  by (simp split: sum.splits)

lemma readOOMKillCount_lines:
  assumes "fs_open fs path = Contents (unlines ls) None" "path \<noteq> []" "list_all plain_line ls"
  shows "readOOMKillCount fs path =
     (case scan_oom_kill path ls of Some r \<Rightarrow> r | None \<Rightarrow> Inr 0)"
  using assms
  by (simp add: readOOMKillCount_def ScanLines_unlines scanner_err_def split: option.splits)

lemma plain_counter_line:
  assumes "n < 2 ^ 64"
  shows "plain_line (oom_kill_prefix @ dec n)"
proof -
  have "newline \<notin> set (dec n)" "carriage_return \<notin> set (dec n)"
    using dec_digits [of newline n] dec_digits [of carriage_return n] by auto
  moreover have "length (dec n) \<le> 20"
    using assms by (intro length_dec) auto
  ultimately show ?thesis
    by (auto simp: plain_line_def fits_def oom_kill_prefix_def)
qed

lemma readOOMKillCount_first:
  assumes "fs_open fs path = Contents (unlines (before @ (oom_kill_prefix @ v) # after)) None"
    and "path \<noteq> []" "list_all plain_line (before @ (oom_kill_prefix @ v) # after)"
    and "\<forall>l \<in> set before. \<not> HasPrefix l oom_kill_prefix"
  shows "readOOMKillCount fs path =
     (case ParseUint v of
        Inl e \<Rightarrow> Inl (Errorf ''parsing oom_kill value from %q: %w'' [Base path] (Some e))
      | Inr n \<Rightarrow> Inr n)"
  unfolding readOOMKillCount_lines [OF assms(1-3)] scan_oom_kill_skip [OF assms(4)]
    scan_oom_kill_hit by simp

text \<open>
  C33.  The counter the kernel prints is the counter read.  For a memory events file in the
  form the kernel writes it (newline-terminated lines of ordinary length), whose first line
  that begins with \<open>oom_kill\<close> and a space continues with the decimal digits of a 64-bit number
  \<open>n\<close>, the result is \<open>n\<close>: the lines before it, such as \<open>oom_kill_disable\<close>, do not matter, and
  neither do the lines after it.
\<close>

theorem readOOMKillCount_roundtrip:
  assumes "path \<noteq> []"
    and "fs_open fs path = Contents (unlines (before @ (oom_kill_prefix @ dec n) # after)) None"
    and "list_all plain_line before" and "list_all plain_line after"
    and "\<forall>l \<in> set before. \<not> HasPrefix l oom_kill_prefix"
    and "n < 2 ^ 64"
  shows "readOOMKillCount fs path = Inr (of_nat n) \<and> unat (of_nat n :: 64 word) = n"
proof -
  have "list_all plain_line (before @ (oom_kill_prefix @ dec n) # after)"
    using assms(3,4,6) plain_counter_line by simp
  then have "readOOMKillCount fs path = Inr (of_nat n)"
    using readOOMKillCount_first [OF assms(2,1) _ assms(5)] assms(6) by (simp add: ParseUint_dec)
  moreover have "unat (of_nat n :: 64 word) = n"
    using assms(6) by (simp add: unsigned_of_nat take_bit_nat_eq_self)
  ultimately show ?thesis by simp
qed

definition sample_fs :: "string \<Rightarrow> string \<Rightarrow> filesystem" where
  "sample_fs path d =
     \<lparr>fs_open = (\<lambda>p. if p = path then Contents d None else Absent),
      fs_stat = (\<lambda>p. if p = path then None else Some ErrNotExist)\<rparr>"

lemma sample_fs_open [simp]: "fs_open (sample_fs path d) path = Contents d None"
  by (simp add: sample_fs_def)

theorem readOOMKillCount_roundtrip_witness:
  "readOOMKillCount
     (sample_fs ''/sys/fs/cgroup/memory/memory.oom_control''
        (unlines [''oom_kill_disable 0'', ''under_oom 0'', ''oom_kill 7'']))
     ''/sys/fs/cgroup/memory/memory.oom_control'' = Inr 7"
proof -
  let ?p = "''/sys/fs/cgroup/memory/memory.oom_control''"
  have d: "dec 7 = ''7''" by code_simp
  show ?thesis
    using readOOMKillCount_roundtrip [of ?p
        "sample_fs ?p (unlines [''oom_kill_disable 0'', ''under_oom 0'', ''oom_kill 7''])"
        "[''oom_kill_disable 0'', ''under_oom 0'']" 7 "[]"]
    unfolding d by (simp add: oom_kill_prefix_def plain_line_def fits_def)
qed

text \<open>
  When the counter cannot be read.  An error is returned exactly when the file exists but
  cannot be opened, or its first counter line holds no 64-bit decimal number, or it has no
  counter line and the scan was cut short by a read error or a line of 64 KiB.  A missing
  file, an empty path and a file without the line all read as zero.
\<close>

theorem readOOMKillCount_error_iff:
  "(\<exists>e. readOOMKillCount fs path = Inl e) \<longleftrightarrow>
     path \<noteq> [] \<and>
     (case fs_open fs path of
        Absent \<Rightarrow> False
      | OpenErr e \<Rightarrow> True
      | Contents d read_err \<Rightarrow>
          (case find (\<lambda>l. HasPrefix l oom_kill_prefix) (fst (ScanLines d)) of
             Some l \<Rightarrow> (\<exists>e. ParseUint (TrimPrefix l oom_kill_prefix) = Inl e)
           | None \<Rightarrow> (\<exists>e. snd (ScanLines d) = Some e \<or> read_err = Some e)))"
proof -
  have scan: "scan_oom_kill path ls =
      (case find (\<lambda>l. HasPrefix l oom_kill_prefix) ls of
         None \<Rightarrow> None
       | Some l \<Rightarrow>
           (case ParseUint (TrimPrefix l oom_kill_prefix) of
              Inl e \<Rightarrow> Some (Inl (Errorf ''parsing oom_kill value from %q: %w'' [Base path] (Some e)))
            | Inr val \<Rightarrow> Some (Inr val)))" for ls
    by (induction ls) auto
  show ?thesis
    by (simp add: readOOMKillCount_def scan scanner_err_def case_prod_beta Let_def
        split: file_state.splits option.splits sum.splits) blast
qed

text \<open>
  A malformed counter is an error of its own: a file that opens and reads to its end
  without any I/O failure still makes the call fail when the text after the first \<open>oom_kill\<close>
  is not a sequence of digits.
\<close>

theorem readOOMKillCount_malformed:
  assumes "path \<noteq> []"
    and "fs_open fs path = Contents (unlines (before @ (oom_kill_prefix @ v) # after)) None"
    and "list_all plain_line (before @ (oom_kill_prefix @ v) # after)"
    and "\<forall>l \<in> set before. \<not> HasPrefix l oom_kill_prefix"
    and "c \<in> set v" and "\<not> is_digit c"
  shows "\<exists>e. readOOMKillCount fs path = Inl e"
  using readOOMKillCount_first [OF assms(2,1,3,4)] ParseUint_bad [OF assms(5,6)] by auto

theorem readOOMKillCount_malformed_witness:
  "\<exists>e. readOOMKillCount (sample_fs ''/f'' (unlines [''oom_kill notanumber''])) ''/f'' = Inl e"
  using readOOMKillCount_malformed [of "''/f''" "sample_fs ''/f'' (unlines [''oom_kill notanumber''])"
      "[]" "''notanumber''" "[]" "CHR ''n''"]
  by (simp add: oom_kill_prefix_def plain_line_def fits_def is_digit_def)

text \<open>
  The memory events path: the cgroups v2 file when it exists, otherwise the v1 file of the
  first cgroup of the process that has the memory controller, otherwise the empty path; any
  procfs error gives the empty path.
\<close>

theorem detectCgroupMemoryEventsPath_spec:
  "detectCgroupMemoryEventsPath fs pf procRoot =
     (if fs_stat fs cgroupV2MemoryEvents = None then cgroupV2MemoryEvents
      else (case (NewFS pf procRoot, Self pf procRoot) of
              (None, Inr self) \<Rightarrow>
                (case Cgroups pf procRoot self of
                   Inr cgs \<Rightarrow>
                     (case find (\<lambda>cg. ''memory'' \<in> set (Controllers cg)) cgs of
                        Some cg \<Rightarrow> ''/sys/fs/cgroup/memory'' @ Path cg @ ''/memory.oom_control''
                      | None \<Rightarrow> [])
                 | Inl _ \<Rightarrow> [])
            | _ \<Rightarrow> []))"
  by (simp add: detectCgroupMemoryEventsPath_def cgroupV1MemoryOOMControlPath_def
      memory_path_find cgroupV1OOMControl_def split: option.splits sum.splits)

end
