(* ===== verification/Proc.thy ===== *)
theory Proc
  imports Cgroup
begin

text \<open>
  Model of \<open>internal/crocochrome/proc.go\<close>: the classification of the processes in the
  container, their memory figures, the walk over \<open>cgroup.procs\<close> at session teardown, and the
  check of the process's capabilities at start-up.
\<close>

unbundle bit_operations_syntax

section \<open>Data and paths\<close>

record processInfo =
  PID :: int
  Type :: string
  RSS :: int
  PeakRSS :: int

definition cgroupProcsPath :: "string \<Rightarrow> string" where
  "cgroupProcsPath eventsPath = path_Join [Dir eventsPath, ''cgroup.procs'']"

definition cgroupMemoryCurrentPath :: "string \<Rightarrow> string" where
  "cgroupMemoryCurrentPath eventsPath =
     (let dir = Dir eventsPath
      in if Base eventsPath = ''memory.events'' then path_Join [dir, ''memory.current'']
         else path_Join [dir, ''memory.usage_in_bytes''])"

section \<open>Process type\<close>

definition type_flag :: string where
  "type_flag = ''--type=''"

definition arg_end :: string where
  "arg_end = [space, nul]"

text \<open>The part of \<open>chromiumProcessType\<close> after the file was read, on the raw command line.\<close>

definition classify :: "string \<Rightarrow> string" where
  "classify raw =
     (case Index raw type_flag of
        Some idx \<Rightarrow>
          (let rest = drop (idx + length type_flag) raw;
               processType = (case IndexAny rest arg_end of Some e \<Rightarrow> take e rest | None \<Rightarrow> rest)
           in if processType = ''utility'' \<and> Contains raw ''network.mojom.NetworkService''
              then ''network-service'' else processType)
      | None \<Rightarrow>
          (let execBase = (case IndexAny raw [nul, space] of
                             None \<Rightarrow> Base raw
                           | Some firstArgEnd \<Rightarrow> Base (take firstArgEnd raw))
           in if Contains raw ''chrome_crashpad'' then ''crashpad''
              else if execBase = ''tini'' then ''tini''
              else if Contains raw ''crocochrome'' then ''crocochrome''
              else ''browser''))"

definition chromiumProcessType :: "filesystem \<Rightarrow> int \<Rightarrow> string \<Rightarrow> string" where
  "chromiumProcessType fs pid procRoot =
     (case ReadFile fs (path_Join [procRoot, Itoa pid, ''cmdline'']) of
        Inl _ \<Rightarrow> ''unknown''
      | Inr raw \<Rightarrow> classify raw)"

section \<open>Memory figures\<close>

text \<open>Go's conversion \<open>int64(x)\<close> of an unsigned value keeps the bits: \<open>sint\<close>.\<close>

definition processMemoryStats :: "procfs \<Rightarrow> int \<Rightarrow> string \<Rightarrow> go_error + int \<times> int" where
  "processMemoryStats pf pid procRoot =
     (case NewFS pf procRoot of
        Some err \<Rightarrow> Inl (Errorf ''opening procfs at %q: %w'' [procRoot] (Some err))
      | None \<Rightarrow>
          (case Proc pf procRoot pid of
             Some err \<Rightarrow> Inl err
           | None \<Rightarrow>
               (case NewStatus pf procRoot pid of
                  Inl err \<Rightarrow> Inl err
                | Inr st \<Rightarrow>
                    if VmRSS st = 0 \<and> VmHWM st = 0
                    then Inl (Errorf ''VmRSS/VmHWM not found in /proc/%d/status'' [Itoa pid] None)
                    else Inr (sint (VmRSS st), sint (VmHWM st)))))"

text \<open>One round of the loop over the lines of \<open>cgroup.procs\<close>: \<open>None\<close> for \<open>continue\<close>.\<close>

definition collect_line :: "filesystem \<Rightarrow> procfs \<Rightarrow> string \<Rightarrow> string \<Rightarrow> processInfo option" where
  "collect_line fs pf procRoot line =
     (if line = [] then None
      else (case Atoi line of
              Inl _ \<Rightarrow> None
            | Inr pid \<Rightarrow>
                (case processMemoryStats pf pid procRoot of
                   Inl _ \<Rightarrow> None
                 | Inr (rss, peakRSS) \<Rightarrow>
                     Some \<lparr>PID = pid, Type = chromiumProcessType fs pid procRoot,
                           RSS = rss, PeakRSS = peakRSS\<rparr>)))"

fun collect_lines :: "filesystem \<Rightarrow> procfs \<Rightarrow> string \<Rightarrow> string list \<Rightarrow> processInfo list" where
  "collect_lines fs pf procRoot [] = []"
| "collect_lines fs pf procRoot (line # lines) =
     (case collect_line fs pf procRoot line of
        None \<Rightarrow> collect_lines fs pf procRoot lines
      | Some p \<Rightarrow> p # collect_lines fs pf procRoot lines)"

text \<open>The three results: the processes, the cgroup total and the error.\<close>

definition collectProcessMetrics ::
    "filesystem \<Rightarrow> procfs \<Rightarrow> string \<Rightarrow> string \<Rightarrow> processInfo list \<times> int \<times> go_error option" where
  "collectProcessMetrics fs pf cgroupEventsPath procRoot =
     (case ReadFile fs (cgroupProcsPath cgroupEventsPath) of
        Inl err \<Rightarrow> ([], 0, Some (Errorf ''reading cgroup.procs: %w'' [] (Some err)))
      | Inr procsData \<Rightarrow>
          (let processes = collect_lines fs pf procRoot (Split (TrimSpace procsData) newline)
           in (case ReadFile fs (cgroupMemoryCurrentPath cgroupEventsPath) of
                 Inl err \<Rightarrow>
                   (processes, 0, Some (Errorf ''reading cgroup memory current: %w'' [] (Some err)))
               | Inr currentData \<Rightarrow>
                   (case ParseInt (TrimSpace currentData) of
                      Inl err \<Rightarrow>
                        (processes, 0,
                         Some (Errorf ''parsing cgroup memory current: %w'' [] (Some err)))
                    | Inr cgroupRSS \<Rightarrow> (processes, cgroupRSS, None)))))"

section \<open>Capabilities\<close>

definition requiredCapabilities :: "(string \<times> nat) list" where
  "requiredCapabilities =
     [(''CAP_CHOWN'', 0), (''CAP_DAC_OVERRIDE'', 1), (''CAP_FOWNER'', 3),
      (''CAP_KILL'', 5), (''CAP_SETGID'', 6), (''CAP_SETUID'', 7)]"

fun missing_capabilities :: "64 word \<Rightarrow> (string \<times> nat) list \<Rightarrow> string list" where
  "missing_capabilities eff [] = []"
| "missing_capabilities eff ((name, b) # cs) =
     (if eff AND push_bit b 1 = 0 then name # missing_capabilities eff cs
      else missing_capabilities eff cs)"

definition CheckCapabilities :: "procfs \<Rightarrow> string \<Rightarrow> go_error option" where
  "CheckCapabilities pf procRoot =
     (case NewFS pf procRoot of
        Some err \<Rightarrow> Some (Errorf ''opening procfs at %q: %w'' [procRoot] (Some err))
      | None \<Rightarrow>
          (case Self pf procRoot of
             Inl err \<Rightarrow> Some err
           | Inr p \<Rightarrow>
               (case NewStatus pf procRoot p of
                  Inl err \<Rightarrow> Some err
                | Inr st \<Rightarrow>
                    (let missing = missing_capabilities (CapEff st) requiredCapabilities
                     in if 0 < length missing
                        then Some (Errorf ''missing capabilities %s, which are required to run chromium as a different user; see doc/capabilities.md''
                                     [Join missing '', ''] None)
                        else None))))"

section \<open>Properties of the classification\<close>

text \<open>
  Chromium's zygote rewrites the command line of the processes it forks, with spaces in place
  of the NUL bytes between the arguments.
\<close>

definition retitle :: "string \<Rightarrow> string" where
  "retitle raw = map (\<lambda>c. if c = nul then space else c) raw"

definition sep_free :: "string \<Rightarrow> bool" where
  "sep_free s \<longleftrightarrow> nul \<notin> set s \<and> space \<notin> set s"

lemma retitle_simps [simp]:
  "retitle [] = []" "retitle (c # s) = (if c = nul then space else c) # retitle s"
  "retitle (s @ t) = retitle s @ retitle t"
  "length (retitle s) = length s" "retitle (drop n s) = drop n (retitle s)"
  "retitle (take n s) = take n (retitle s)"
  by (simp_all add: retitle_def drop_map take_map)

lemma retitle_sep_free: "sep_free s \<Longrightarrow> retitle s = s"
  by (auto simp: sep_free_def retitle_def intro!: map_idI)

lemma HasPrefix_retitle: "sep_free p \<Longrightarrow> HasPrefix (retitle s) p = HasPrefix s p"
proof (induction p arbitrary: s)
  case (Cons c p)
  then show ?case by (cases s) (auto simp: sep_free_def)
qed simp

lemma Index_retitle: "sep_free p \<Longrightarrow> Index (retitle s) p = Index s p"
proof (induction s)
  case (Cons c s)
  have "HasPrefix (retitle (c # s)) p = HasPrefix (c # s) p"
    by (rule HasPrefix_retitle [OF Cons.prems])
  with Cons show ?case by (simp del: HasPrefix_Cons)
qed simp

lemma Contains_retitle: "sep_free p \<Longrightarrow> Contains (retitle s) p = Contains s p"
  by (simp add: Contains_def Index_retitle)

lemma IndexAny_retitle: "set cs = {space, nul} \<Longrightarrow> IndexAny (retitle s) cs = IndexAny s cs"
  by (induction s) auto

lemma take_before_sep:
  assumes "set cs = {space, nul}" "IndexAny s cs = Some i"
  shows "take i (retitle s) = take i s"
  using retitle_sep_free [of "take i s"] IndexAny_Some [OF assms(2)] assms(1)
  by (auto simp: sep_free_def)

lemma IndexAny_None_iff: "IndexAny s cs = None \<longleftrightarrow> set s \<inter> set cs = {}"
  by (induction s) auto

lemma retitle_no_sep:
  assumes "set cs = {space, nul}" "IndexAny s cs = None"
  shows "retitle s = s"
  using assms by (intro retitle_sep_free) (auto simp: sep_free_def IndexAny_None_iff)

text \<open>
  C34.  The two layouts of a command line are classified alike: replacing the NUL bytes that
  separate the arguments by spaces, as the zygote does, never changes the process type.
\<close>

theorem classify_retitle: "classify (retitle raw) = classify raw"
proof -
  have seps: "set arg_end = {space, nul}" "set [nul, space] = {space, nul}"
    by (auto simp: arg_end_def)
  have arg: "(case IndexAny (retitle s) cs of Some e \<Rightarrow> f (take e (retitle s)) | None \<Rightarrow> f (retitle s)) =
      (case IndexAny s cs of Some e \<Rightarrow> f (take e s) | None \<Rightarrow> f s)"
    if "set cs = {space, nul}" for f :: "string \<Rightarrow> string" and s cs
    using that by (auto simp: IndexAny_retitle take_before_sep retitle_no_sep split: option.splits)
  have c: "Contains (retitle raw) ''network.mojom.NetworkService'' = Contains raw ''network.mojom.NetworkService''"
    "Contains (retitle raw) ''chrome_crashpad'' = Contains raw ''chrome_crashpad''"
    "Contains (retitle raw) ''crocochrome'' = Contains raw ''crocochrome''"
    "Index (retitle raw) type_flag = Index raw type_flag"
    by (simp_all add: Contains_retitle Index_retitle sep_free_def type_flag_def)
  show ?thesis
    unfolding classify_def Let_def c retitle_simps(5) [symmetric]
      arg [OF seps(1), of "\<lambda>x. x"] arg [OF seps(2), of Base] ..
qed

text \<open>
  The value of the first \<open>--type=\<close> argument is the process type, up to the next space, NUL
  byte or the end of the command line, whatever comes after it; only a utility process that
  runs the network service gets a name of its own.
\<close>

theorem classify_type_argument:
  assumes "Index (pre @ type_flag @ t @ post) type_flag = Some (length pre)"
    and "sep_free t" and "post = [] \<or> hd post \<in> {space, nul}"
  shows "classify (pre @ type_flag @ t @ post) =
    (if t = ''utility'' \<and> Contains (pre @ type_flag @ t @ post) ''network.mojom.NetworkService''
     then ''network-service'' else t)"
proof -
  have t: "set t \<inter> set arg_end = {}" using assms(2) by (auto simp: sep_free_def arg_end_def)
  have arg: "(case IndexAny (t @ post) arg_end of Some e \<Rightarrow> take e (t @ post) | None \<Rightarrow> t @ post) = t"
  proof (cases post)
    case Nil
    with t show ?thesis by simp
  next
    case (Cons c post')
    with assms(3) have "c \<in> set arg_end" by (auto simp: arg_end_def)
    with t Cons show ?thesis by simp
  qed
  have rest: "drop (length pre + length type_flag) (pre @ type_flag @ t @ post) = t @ post"
    by simp
  show ?thesis
    unfolding classify_def Let_def assms(1) option.case rest arg ..
qed

theorem classify_type_argument_witness:
  "classify (''/usr/bin/chromium'' @ [nul] @ ''--type=renderer'' @ [nul] @ ''--no-sandbox'') = ''renderer''"
proof -
  have "Index (''/usr/bin/chromium'' @ [nul] @ ''--type=renderer'' @ [nul] @ ''--no-sandbox'') ''--type=''
      = Some 18" by code_simp
  then show ?thesis
    using classify_type_argument [of "''/usr/bin/chromium'' @ [nul]" "''renderer''" "[nul] @ ''--no-sandbox''"]
    by (simp add: type_flag_def sep_free_def)
qed

text \<open>
  The init process is recognised by its executable alone.  A command line without \<open>--type=\<close>
  and without a crash handler whose first argument is \<open>tini\<close> or a path to \<open>tini\<close> is \<open>tini\<close>, even
  though the arguments that follow name \<open>crocochrome\<close>.
\<close>

theorem classify_tini:
  assumes "exe = ''tini'' \<or> (\<exists>dir. exe = dir @ ''/tini'')" and "sep_free exe"
    and "c \<in> {space, nul}"
    and "\<not> Contains (exe @ c # args) type_flag"
    and "\<not> Contains (exe @ c # args) ''chrome_crashpad''"
  shows "classify (exe @ c # args) = ''tini''"
proof -
  have "plain_elem ''tini''" by (simp add: plain_elem_def)
  then have base: "Base exe = ''tini''"
    using assms(1) Base_file [of "''tini''"] by auto
  have "IndexAny (exe @ c # args) [nul, space] = Some (length exe)"
    using assms(2,3) by (intro IndexAny_append) (auto simp: sep_free_def)
  moreover have "Index (exe @ c # args) type_flag = None"
    using assms(4) by (simp add: Contains_def)
  ultimately show ?thesis using base assms(5) by (simp add: classify_def Let_def)
qed

theorem classify_tini_witness:
  "classify (''/sbin/tini'' @ nul # ''--'' @ [nul] @ ''/usr/local/bin/crocochrome'') = ''tini''"
proof -
  have "\<not> Contains (''/sbin/tini'' @ nul # ''--'' @ [nul] @ ''/usr/local/bin/crocochrome'') ''--type=''"
    "\<not> Contains (''/sbin/tini'' @ nul # ''--'' @ [nul] @ ''/usr/local/bin/crocochrome'') ''chrome_crashpad''"
    by code_simp+
  moreover have "\<exists>dir. ''/sbin/tini'' = dir @ ''/tini''"
    by (rule exI [of _ "''/sbin''"]) simp
  ultimately show ?thesis
    using classify_tini [of "''/sbin/tini''" nul "''--'' @ [nul] @ ''/usr/local/bin/crocochrome''"]
    by (simp add: type_flag_def sep_free_def)
qed

section \<open>Properties of the paths\<close>

text \<open>
  The files next to the memory events file.  For an absolute path of ordinary elements,
  \<open>cgroup.procs\<close> is the file of that name in the same directory, and the memory total is
  \<open>memory.current\<close> beside \<open>memory.events\<close> (cgroups v2) and \<open>memory.usage_in_bytes\<close> beside any
  other file (cgroups v1).
\<close>

theorem cgroup_sibling_paths:
  assumes "list_all plain_elem es" "plain_elem f"
  shows "cgroupProcsPath (abs_path (es @ [f])) = abs_path (es @ [''cgroup.procs'']) \<and>
    cgroupMemoryCurrentPath (abs_path (es @ [f])) =
      abs_path (es @ [if f = ''memory.events'' then ''memory.current'' else ''memory.usage_in_bytes''])"
proof -
  have dir: "Dir (abs_path (es @ [f])) = abs_path es"
    using assms by (rule Dir_abs_path)
  have base: "Base (abs_path (es @ [f])) = f"
    using Base_file(1) [OF assms(2), of "[]"] Base_file(1) [OF assms(2), of "abs_path es"]
    by (simp add: abs_path_snoc)
  have "plain_elem ''cgroup.procs''" "plain_elem ''memory.current''" "plain_elem ''memory.usage_in_bytes''"
    by (simp_all add: plain_elem_def)
  then show ?thesis
    using assms(1)
    by (simp add: cgroupProcsPath_def cgroupMemoryCurrentPath_def dir base Let_def path_Join_abs_path)
qed

theorem cgroup_sibling_paths_witness:
  "cgroupMemoryCurrentPath ''/sys/fs/cgroup/memory.events'' = ''/sys/fs/cgroup/memory.current''"
  using cgroup_sibling_paths [of "[''sys'', ''fs'', ''cgroup'']" "''memory.events''"]
  by (simp add: plain_elem_def abs_path_def)

section \<open>Properties of the process walk\<close>

lemma unlines_Join: "ls \<noteq> [] \<Longrightarrow> unlines ls = Join ls [newline] @ [newline]"
  by (induction ls "[newline]" rule: Join.induct) auto

definition process_of :: "filesystem \<Rightarrow> procfs \<Rightarrow> string \<Rightarrow> int \<Rightarrow> processInfo option" where
  "process_of fs pf procRoot pid =
     (case processMemoryStats pf pid procRoot of
        Inl _ \<Rightarrow> None
      | Inr (rss, peak) \<Rightarrow>
          Some \<lparr>PID = pid, Type = chromiumProcessType fs pid procRoot, RSS = rss, PeakRSS = peak\<rparr>)"

lemma collect_line_dec:
  "n < 2 ^ 63 \<Longrightarrow> collect_line fs pf procRoot (dec n) = process_of fs pf procRoot (int n)"
  by (simp add: collect_line_def process_of_def Atoi_def ParseInt_dec)

lemma collect_lines_filter:
  "collect_lines fs pf procRoot ls = List.map_filter (collect_line fs pf procRoot) ls"
  by (induction ls) (simp_all add: map_filter_simps split: option.splits)

lemma TrimSpace_pids:
  assumes "pids \<noteq> []"
  shows "TrimSpace (unlines (map dec pids)) = Join (map dec pids) [newline]"
proof -
  obtain p ps where ps: "pids = p # ps" using assms by (cases pids) auto
  obtain qs q where qs: "pids = qs @ [q]" using assms by (cases pids rule: rev_cases) auto
  obtain a s where a: "dec p = a # s" "printable a"
    using dec_not_Nil digit_printable dec_digits by (metis list.set_intros(1) neq_Nil_conv)
  obtain t z where z: "dec q = t @ [z]" "printable z"
    using dec_not_Nil digit_printable dec_digits by (metis append_butlast_last_id last_in_set)
  have "\<exists>r. Join (map dec pids) [newline] = a # r" using ps a by (cases ps) auto
  moreover have "\<exists>r. Join (map dec pids) [newline] = r @ [z]"
    using qs z Join_append [of "map dec qs" "[dec q]" "[newline]"] by (cases qs) auto
  ultimately show ?thesis
    using a(2) z(2) assms by (auto simp: unlines_Join intro: TrimSpace_text)
qed

lemma collect_lines_pids:
  assumes "\<forall>n \<in> set pids. n < 2 ^ 63"
  shows "collect_lines fs pf procRoot (Split (TrimSpace (unlines (map dec pids))) newline) =
    List.map_filter (\<lambda>n. process_of fs pf procRoot (int n)) pids"
proof (cases "pids = []")
  case True
  then show ?thesis by (simp add: TrimSpace_def collect_line_def map_filter_simps)
next
  case False
  have "Split (Join (map dec pids) [newline]) newline = map dec pids"
    using False by (intro Split_Join) (auto dest: dec_digits)
  then show ?thesis
    using False assms
    by (simp add: TrimSpace_pids collect_lines_filter List.map_filter_def comp_def filter_map collect_line_dec
        cong: filter_cong map_cong)
qed

text \<open>
  The walk over \<open>cgroup.procs\<close>.  When the file lists the decimal process ids \<open>pids\<close>, the
  processes reported are exactly those whose memory could be read, in the order of the file,
  each with its own figures and type; a process that is gone is skipped and never fails the
  walk.  The list is returned even when the cgroup total cannot be read, and the error says
  whether it could.
\<close>

theorem collectProcessMetrics_walk:
  assumes "ReadFile fs (cgroupProcsPath events) = Inr (unlines (map dec pids))"
    and "\<forall>n \<in> set pids. n < 2 ^ 63"
  shows "\<exists>total err. collectProcessMetrics fs pf events procRoot =
      (List.map_filter (\<lambda>n. process_of fs pf procRoot (int n)) pids, total, err) \<and>
    (err = None \<longleftrightarrow> (\<exists>d. ReadFile fs (cgroupMemoryCurrentPath events) = Inr d \<and>
                       ParseInt (TrimSpace d) = Inr total))"
  using assms
  by (auto simp: collectProcessMetrics_def collect_lines_pids Let_def split: sum.splits)

definition sample_procfs :: procfs where
  "sample_procfs =
     \<lparr>NewFS = (\<lambda>_. None), Self = (\<lambda>_. Inr 42), Cgroups = (\<lambda>_ _. Inr []),
      Proc = (\<lambda>_ pid. if pid = 100 then None else Some ErrNotExist),
      NewStatus = (\<lambda>_ _. Inr \<lparr>VmRSS = 1024, VmHWM = 2048, CapEff = 0xEB\<rparr>)\<rparr>"

theorem collectProcessMetrics_walk_witness:
  "map PID (fst (collectProcessMetrics (sample_fs ''/cg/cgroup.procs'' (unlines [''100'', ''999'']))
     sample_procfs ''/cg/memory.events'' ''/proc'')) = [100]"
proof -
  have d: "dec 100 = ''100''" "dec 999 = ''999''" by code_simp+
  have path: "cgroupProcsPath ''/cg/memory.events'' = ''/cg/cgroup.procs''" by code_simp
  have "ReadFile (sample_fs ''/cg/cgroup.procs'' (unlines [''100'', ''999''])) (cgroupProcsPath ''/cg/memory.events'')
      = Inr (unlines (map dec [100, 999]))"
    unfolding path by (simp add: ReadFile_def d)
  from collectProcessMetrics_walk [OF this, of sample_procfs "''/proc''"]
  show ?thesis
    by (auto simp: map_filter_simps process_of_def processMemoryStats_def sample_procfs_def)
qed

section \<open>Properties of the capability check\<close>

lemma missing_capabilities_bits:
  "missing_capabilities eff cs = map fst (filter (\<lambda>(name, b). \<not> bit eff b) cs)"
  by (induction eff cs rule: missing_capabilities.induct)
    (auto simp: push_bit_of_1 and_exp_eq_0_iff_not_bit)

lemma and_mask_iff: "(w :: 64 word) AND m = m \<longleftrightarrow> (\<forall>n. bit m n \<longrightarrow> bit w n)"
proof
  assume "w AND m = m"
  then show "\<forall>n. bit m n \<longrightarrow> bit w n" by (metis bit_and_iff)
next
  assume "\<forall>n. bit m n \<longrightarrow> bit w n"
  then show "w AND m = m" by (intro bit_eqI) (auto simp: bit_and_iff)
qed

lemma bit_mask_0xEB: "bit (0xEB :: 64 word) n \<longleftrightarrow> n \<in> {0, 1, 3, 5, 6, 7}"
proof -
  have "(0xEB :: 64 word) = 2 ^ 0 OR 2 ^ 1 OR 2 ^ 3 OR 2 ^ 5 OR 2 ^ 6 OR 2 ^ 7" by simp
  then show ?thesis by (simp only: bit_or_iff bit_exp_iff) auto
qed

text \<open>
  C35.  The capability check passes exactly when procfs could be read and the effective set has
  all six required bits, that is when masking it with \<open>0xEB\<close> gives \<open>0xEB\<close>; otherwise the error
  names the capabilities that are missing.
\<close>

theorem CheckCapabilities_mask:
  assumes "NewFS pf procRoot = None" "Self pf procRoot = Inr p" "NewStatus pf procRoot p = Inr st"
  shows "(CheckCapabilities pf procRoot = None \<longleftrightarrow> CapEff st AND 0xEB = 0xEB) \<and>
    (\<forall>e. CheckCapabilities pf procRoot = Some e \<longrightarrow>
       (\<exists>f. e = Errorf f [Join (map fst (filter (\<lambda>(name, b). \<not> bit (CapEff st) b)
                                  requiredCapabilities)) '', ''] None))"
proof -
  have "missing_capabilities (CapEff st) requiredCapabilities = [] \<longleftrightarrow>
      bit (CapEff st) 0 \<and> bit (CapEff st) 1 \<and> bit (CapEff st) 3 \<and> bit (CapEff st) 5 \<and>
      bit (CapEff st) 6 \<and> bit (CapEff st) 7"
    by (simp add: missing_capabilities_bits requiredCapabilities_def)
  also have "\<dots> \<longleftrightarrow> CapEff st AND 0xEB = 0xEB"
    unfolding and_mask_iff bit_mask_0xEB Ball_def [symmetric] by simp
  finally show ?thesis
    using assms by (auto simp: CheckCapabilities_def Let_def missing_capabilities_bits)
qed

theorem CheckCapabilities_mask_witness:
  "CheckCapabilities sample_procfs ''/proc'' = None"
  using CheckCapabilities_mask [of sample_procfs "''/proc''" 42]
  by (simp add: sample_procfs_def)

end
