(* ===== verification/Go_Json.thy ===== *)
theory Go_Json
  imports Go_Numbers
begin

text \<open>
  What the program uses of Go's \<open>encoding/json\<close> and \<open>unicode/utf8\<close>: the text of a JSON value read
  from the front of a stream, the encoding of strings, and the round trip between them.
  Strings are bytes: a byte that is not part of a valid UTF-8 sequence is replaced by the
  encoding of U+FFFD on the way in and on the way out.
\<close>

section \<open>UTF-8\<close>

abbreviation byte_of :: "char \<Rightarrow> nat" where
  "byte_of c \<equiv> of_char c"

definition between :: "nat \<Rightarrow> char \<Rightarrow> nat \<Rightarrow> bool" where
  "between lo c hi \<longleftrightarrow> lo \<le> byte_of c \<and> byte_of c \<le> hi"

text \<open>The range the second byte must be in, and how many bytes follow the first.\<close>

definition second_range :: "nat \<Rightarrow> (nat \<times> nat \<times> nat) option" where
  "second_range b =
     (if 0xC2 \<le> b \<and> b \<le> 0xDF then Some (0x80, 0xBF, 0)
      else if b = 0xE0 then Some (0xA0, 0xBF, 1)
      else if b = 0xED then Some (0x80, 0x9F, 1)
      else if 0xE1 \<le> b \<and> b \<le> 0xEF then Some (0x80, 0xBF, 1)
      else if b = 0xF0 then Some (0x90, 0xBF, 2)
      else if b = 0xF4 then Some (0x80, 0x8F, 2)
      else if 0xF1 \<le> b \<and> b \<le> 0xF3 then Some (0x80, 0xBF, 2)
      else None)"

definition continuation :: "nat \<Rightarrow> string \<Rightarrow> bool" where
  "continuation n s \<longleftrightarrow> n \<le> length s \<and> list_all (\<lambda>c. between 0x80 c 0xBF) (take n s)"

text \<open>The number of bytes of the rune at the front, 0 for an invalid one: \<open>utf8.DecodeRune\<close>.\<close>

fun rune_len :: "string \<Rightarrow> nat" where
  "rune_len [] = 0"
| "rune_len [c] = (if byte_of c < 0x80 then 1 else 0)"
| "rune_len (c # d # s) =
     (if byte_of c < 0x80 then 1
      else (case second_range (byte_of c) of
              None \<Rightarrow> 0
            | Some (lo, hi, n) \<Rightarrow> if between lo d hi \<and> continuation n s then n + 2 else 0))"

definition replacement :: string where
  "replacement = [CHR 0xEF, CHR 0xBF, CHR 0xBD]"

text \<open>\<open>utf8.AppendRune\<close> for a code point that is not a surrogate.\<close>

definition encode_rune :: "nat \<Rightarrow> string" where
  "encode_rune n =
     (if n < 0x80 then [char_of n]
      else if n < 0x800 then [char_of (0xC0 + n div 64), char_of (0x80 + n mod 64)]
      else if n < 0x10000 then
        [char_of (0xE0 + n div 4096), char_of (0x80 + n div 64 mod 64), char_of (0x80 + n mod 64)]
      else [char_of (0xF0 + n div 262144), char_of (0x80 + n div 4096 mod 64),
            char_of (0x80 + n div 64 mod 64), char_of (0x80 + n mod 64)])"

text \<open>Every invalid byte replaced, everything else kept.\<close>

function sanitize :: "string \<Rightarrow> string" where
  "sanitize [] = []"
| "sanitize (c # s) =
     (let n = rune_len (c # s)
      in if n = 0 then replacement @ sanitize s else take n (c # s) @ sanitize (drop (n - 1) s))"
  by pat_completeness auto
termination by (relation "measure length") auto

declare sanitize.simps(2) [simp del]

definition ascii :: "string \<Rightarrow> bool" where
  "ascii s \<longleftrightarrow> list_all (\<lambda>c. byte_of c < 0x80) s"

lemma rune_len_ascii [simp]: "byte_of c < 0x80 \<Longrightarrow> rune_len (c # s) = 1"
  by (cases s) auto

lemma rune_len_bound: "rune_len s \<le> length s"
  by (cases s rule: rune_len.cases) (auto simp: continuation_def split: option.splits)

lemma rune_len_long: "rune_len (c # s) = n \<Longrightarrow> 0 < n \<Longrightarrow> 0x80 \<le> byte_of c \<Longrightarrow> 2 \<le> n"
  by (cases s) (auto split: option.splits if_splits)

text \<open>Whether a sequence is valid is seen from its own bytes.\<close>

lemma rune_len_take:
  assumes "rune_len (c # s) = n" "0 < n"
  shows "rune_len (take n (c # s) @ t) = n"
proof (cases "byte_of c < 0x80")
  case True
  then show ?thesis using assms by auto
next
  case False
  then obtain d u lo hi k where s: "s = d # u" "second_range (byte_of c) = Some (lo, hi, k)"
    "between lo d hi" "continuation k u" "n = k + 2"
    using assms by (cases s) (auto split: option.splits if_splits)
  then have "continuation k (take k u @ t)" by (simp add: continuation_def)
  then show ?thesis using s False by simp
qed

lemma sanitize_ascii: "ascii s \<Longrightarrow> sanitize s = s"
  by (induction s) (auto simp: ascii_def sanitize.simps(2))

lemma sanitize_rune:
  assumes "rune_len (c # s) = n" "0 < n"
  shows "sanitize (take n (c # s) @ t) = take n (c # s) @ sanitize t"
proof -
  obtain m where m: "n = Suc m" using assms(2) by (cases n) auto
  have "rune_len (c # take m s @ t) = n" using rune_len_take [OF assms, of t] m by simp
  moreover have "m \<le> length s" using rune_len_bound [of "c # s"] assms(1) m by simp
  ultimately show ?thesis by (simp add: sanitize.simps(2) Let_def m)
qed

lemma rune_len_replacement: "rune_len replacement = 3"
  by (simp add: replacement_def second_range_def between_def continuation_def)

lemma sanitize_idem: "sanitize (sanitize s) = sanitize s"
proof (induction s rule: sanitize.induct)
  case (2 c s)
  define n where "n = rune_len (c # s)"
  show ?case
  proof (cases "n = 0")
    case True
    have "sanitize (replacement @ t) = replacement @ sanitize t" for t
      using sanitize_rune [of _ _ 3 t, OF rune_len_replacement [unfolded replacement_def]]
      by (simp add: replacement_def)
    then show ?thesis using "2.IH"(1) True n_def by (simp add: sanitize.simps(2))
  next
    case False
    then have "sanitize (c # s) = take n (c # s) @ sanitize (drop (n - 1) s)"
      by (simp add: sanitize.simps(2) Let_def n_def)
    then show ?thesis using "2.IH"(2) [OF n_def False] sanitize_rune [OF n_def [symmetric]] False by simp
  qed
qed simp

section \<open>Reading\<close>

datatype json =
    JNull
  | JBool bool
  | JNum string
  | JStr string
  | JArr "json list"
  | JObj "(string \<times> json) list"

text \<open>
  What is found at the front of the input: a value and the rest, an input that ends too early, or a
  syntax error.
\<close>

datatype 'a scan = Got 'a string | Truncated | Malformed

fun scan_map :: "('a \<Rightarrow> 'b) \<Rightarrow> 'a scan \<Rightarrow> 'b scan" where
  "scan_map f (Got x r) = Got (f x) r"
| "scan_map f Truncated = Truncated"
| "scan_map f Malformed = Malformed"

lemma scan_map_Got [simp]: "scan_map f m = Got y r \<longleftrightarrow> (\<exists>x. m = Got x r \<and> y = f x)"
  by (cases m) auto

definition isSpace :: "char \<Rightarrow> bool" where
  "isSpace c \<longleftrightarrow> byte_of c = 0x20 \<or> byte_of c = 0x09 \<or> byte_of c = 0x0D \<or> byte_of c = 0x0A"

definition skip_space :: "string \<Rightarrow> string" where
  "skip_space s = dropWhile isSpace s"

abbreviation quote_char :: char where "quote_char \<equiv> CHR 0x22"
abbreviation backslash :: char where "backslash \<equiv> CHR 0x5C"

definition is_hexit :: "char \<Rightarrow> bool" where
  "is_hexit c \<longleftrightarrow> between 48 c 57 \<or> between 97 c 102 \<or> between 65 c 70"

definition hexit_val :: "char \<Rightarrow> nat" where
  "hexit_val c = (if byte_of c < 58 then byte_of c - 48 else if byte_of c < 71 then byte_of c - 55 else byte_of c - 87)"

definition hex_value :: "string \<Rightarrow> nat" where
  "hex_value s = fold (\<lambda>c n. n * 16 + hexit_val c) s 0"

text \<open>The escapes of one character.\<close>

definition simple_escape :: "char \<Rightarrow> char option" where
  "simple_escape c =
     (if c = quote_char \<or> c = backslash \<or> c = CHR ''/'' then Some c
      else if c = CHR ''b'' then Some (CHR 0x08)
      else if c = CHR ''f'' then Some (CHR 0x0C)
      else if c = CHR ''n'' then Some (CHR 0x0A)
      else if c = CHR ''r'' then Some (CHR 0x0D)
      else if c = CHR ''t'' then Some (CHR 0x09)
      else None)"

text \<open>A second surrogate that completes a pair with the first: the code point of both.\<close>

definition low_surrogate :: "nat \<Rightarrow> string \<Rightarrow> nat option" where
  "low_surrogate hi s =
     (if hi < 0xDC00 \<and> 6 \<le> length s \<and> take 2 s = [backslash, CHR ''u''] \<and>
         list_all is_hexit (take 4 (drop 2 s))
      then (let lo = hex_value (take 4 (drop 2 s))
            in if 0xDC00 \<le> lo \<and> lo < 0xE000 then Some (0x10000 + (hi - 0xD800) * 1024 + (lo - 0xDC00)) else None)
      else None)"

text \<open>The inside of a string, after the opening quote, with the closing quote.\<close>

function str_body :: "string \<Rightarrow> string scan" where
  "str_body [] = Truncated"
| "str_body (c # s) =
     (if c = quote_char then Got [] s
      else if c = backslash then
        (case s of
           [] \<Rightarrow> Truncated
         | e # t \<Rightarrow>
             (case simple_escape e of
                Some d \<Rightarrow> scan_map (Cons d) (str_body t)
              | None \<Rightarrow>
                  if e \<noteq> CHR ''u'' \<or> \<not> list_all is_hexit (take 4 t) then Malformed
                  else if length t < 4 then Truncated
                  else (let n = hex_value (take 4 t)
                        in if 0xD800 \<le> n \<and> n < 0xE000
                           then (case low_surrogate n (drop 4 t) of
                                   Some m \<Rightarrow> scan_map (append (encode_rune m)) (str_body (drop 10 t))
                                 | None \<Rightarrow> scan_map (append replacement) (str_body (drop 4 t)))
                           else scan_map (append (encode_rune n)) (str_body (drop 4 t)))))
      else if byte_of c < 0x20 then Malformed
      else (let n = rune_len (c # s)
            in if n = 0 then scan_map (append replacement) (str_body s)
               else scan_map (append (take n (c # s))) (str_body (drop (n - 1) s))))"
  by pat_completeness auto
termination by (relation "measure length") auto

declare str_body.simps(2) [simp del]

text \<open>Numbers: the literal and what follows it.\<close>

definition read_digits :: "string \<Rightarrow> string scan" where
  "read_digits s =
     (if takeWhile is_digit s \<noteq> [] then Got (takeWhile is_digit s) (dropWhile is_digit s)
      else if s = [] then Truncated else Malformed)"

definition num_int :: "string \<Rightarrow> string scan" where
  "num_int s = (case s of c # t \<Rightarrow> if c = CHR ''0'' then Got [c] t else read_digits s | [] \<Rightarrow> Truncated)"

definition num_frac :: "string \<Rightarrow> string scan" where
  "num_frac s = (case s of c # t \<Rightarrow> if c = CHR ''.'' then scan_map (Cons c) (read_digits t) else Got [] s | [] \<Rightarrow> Got [] [])"

definition num_exp :: "string \<Rightarrow> string scan" where
  "num_exp s =
     (case s of
        c # t \<Rightarrow>
          if c = CHR ''e'' \<or> c = CHR ''E''
          then (case t of
                  d # u \<Rightarrow> if d = CHR ''+'' \<or> d = CHR ''-'' then scan_map (\<lambda>x. c # d # x) (read_digits u)
                           else scan_map (Cons c) (read_digits t)
                | [] \<Rightarrow> Truncated)
          else Got [] s
      | [] \<Rightarrow> Got [] [])"

definition number :: "string \<Rightarrow> string scan" where
  "number s =
     (let (sign, u) = (if s \<noteq> [] \<and> hd s = CHR ''-'' then ([hd s], tl s) else ([], s))
      in (case num_int u of
            Truncated \<Rightarrow> Truncated | Malformed \<Rightarrow> Malformed
          | Got i r \<Rightarrow>
              (case num_frac r of
                 Truncated \<Rightarrow> Truncated | Malformed \<Rightarrow> Malformed
               | Got f r' \<Rightarrow> scan_map (\<lambda>e. sign @ i @ f @ e) (num_exp r'))))"

text \<open>A fixed word, of which \<open>w\<close> is still to come.\<close>

fun word_rest :: "string \<Rightarrow> string \<Rightarrow> unit scan" where
  "word_rest [] s = Got () s"
| "word_rest (c # w) [] = Truncated"
| "word_rest (c # w) (d # s) = (if c = d then word_rest w s else Malformed)"

definition maxNestingDepth :: nat where
  "maxNestingDepth = 10000"

text \<open>
  A value, the elements of an array after its bracket or a comma, the members of an object after its brace
  or a comma; the first argument counts the arrays and objects that are open.
\<close>

function (sequential) jvalue :: "nat \<Rightarrow> string \<Rightarrow> json scan"
  and jelements :: "nat \<Rightarrow> string \<Rightarrow> json list scan"
  and jmembers :: "nat \<Rightarrow> string \<Rightarrow> (string \<times> json) list scan" where
  "jvalue n s =
     (case skip_space s of
        [] \<Rightarrow> Truncated
      | c # t \<Rightarrow>
          if c = CHR ''{'' then
            (if maxNestingDepth \<le> n then Malformed
             else (case skip_space t of
                     [] \<Rightarrow> Truncated
                   | d # u \<Rightarrow> if d = CHR ''}'' then Got (JObj []) u else scan_map JObj (jmembers (Suc n) t)))
          else if c = CHR ''['' then
            (if maxNestingDepth \<le> n then Malformed
             else (case skip_space t of
                     [] \<Rightarrow> Truncated
                   | d # u \<Rightarrow> if d = CHR '']'' then Got (JArr []) u else scan_map JArr (jelements (Suc n) t)))
          else if c = quote_char then scan_map JStr (str_body t)
          else if c = CHR ''t'' then scan_map (\<lambda>_. JBool True) (word_rest ''rue'' t)
          else if c = CHR ''f'' then scan_map (\<lambda>_. JBool False) (word_rest ''alse'' t)
          else if c = CHR ''n'' then scan_map (\<lambda>_. JNull) (word_rest ''ull'' t)
          else scan_map JNum (number (c # t)))"
| "jelements n s =
     (case jvalue n s of
        Truncated \<Rightarrow> Truncated | Malformed \<Rightarrow> Malformed
      | Got v r \<Rightarrow>
          (case skip_space r of
             [] \<Rightarrow> Truncated
           | c # t \<Rightarrow>
               if c = CHR '','' then scan_map (Cons v) (jelements n t)
               else if c = CHR '']'' then Got [v] t else Malformed))"
| "jmembers n s =
     (case skip_space s of
        [] \<Rightarrow> Truncated
      | c # t \<Rightarrow>
          if c \<noteq> quote_char then Malformed
          else (case str_body t of
                  Truncated \<Rightarrow> Truncated | Malformed \<Rightarrow> Malformed
                | Got k r \<Rightarrow>
                    (case skip_space r of
                       [] \<Rightarrow> Truncated
                     | d # u \<Rightarrow>
                         if d \<noteq> CHR '':'' then Malformed
                         else (case jvalue n u of
                                 Truncated \<Rightarrow> Truncated | Malformed \<Rightarrow> Malformed
                               | Got v r' \<Rightarrow>
                                   (case skip_space r' of
                                      [] \<Rightarrow> Truncated
                                    | e # w \<Rightarrow>
                                        if e = CHR '','' then scan_map (Cons (k, v)) (jmembers n w)
                                        else if e = CHR ''}'' then Got [(k, v)] w else Malformed)))))"
  by pat_completeness auto

lemma dropWhile_short: "length (dropWhile P s) \<le> length s"
  by (rule length_dropWhile_le)

lemma skip_short: "skip_space s = c # t \<Longrightarrow> length t < length s"
  using length_dropWhile_le [of isSpace s] by (simp add: skip_space_def)

lemma str_body_short: "str_body s = Got x r \<Longrightarrow> length r < length s"
proof (induction "length s" arbitrary: s x rule: less_induct)
  case less
  have IH: "length r < length s" if "str_body u = Got y r" "length u < length s" for u y
    using less.hyps [OF that(2,1)] that(2) by simp
  show ?case
  proof (cases s)
    case (Cons c t)
    show ?thesis
      using less.prems unfolding Cons
      by (subst (asm) str_body.simps)
        (auto simp: Let_def Cons split: if_splits list.splits option.splits dest!: IH)
  qed (use less.prems in simp)
qed

lemma digits_short: "read_digits s = Got x r \<Longrightarrow> length r < length s"
  by (cases s) (auto simp: read_digits_def less_Suc_eq_le dropWhile_short split: if_splits)

lemma number_short: "number s = Got x r \<Longrightarrow> length r < length s"
proof -
  have i: "num_int s = Got x r \<Longrightarrow> length r < length s" for s x r
    by (auto simp: num_int_def split: list.splits if_splits dest: digits_short)
  have f: "num_frac s = Got x r \<Longrightarrow> length r \<le> length s" for s x r
    by (auto simp: num_frac_def split: list.splits if_splits dest!: digits_short)
  have e: "num_exp s = Got x r \<Longrightarrow> length r \<le> length s" for s x r
    by (auto simp: num_exp_def split: list.splits if_splits dest!: digits_short)
  show "number s = Got x r \<Longrightarrow> length r < length s"
    by (cases s) (auto simp: number_def Let_def split: if_splits scan.splits dest!: i f e)
qed

lemma word_rest_short: "word_rest w s = Got x r \<Longrightarrow> length r \<le> length s"
  by (induction w s rule: word_rest.induct) (auto split: if_splits)

lemma jvalue_short:
  "jvalue_jelements_jmembers_dom (Inl (n, s)) \<Longrightarrow> jvalue n s = Got v r \<Longrightarrow> length r < length s"
  "jvalue_jelements_jmembers_dom (Inr (Inl (n, s))) \<Longrightarrow> jelements n s = Got vs r \<Longrightarrow> length r < length s"
  "jvalue_jelements_jmembers_dom (Inr (Inr (n, s))) \<Longrightarrow> jmembers n s = Got ms r \<Longrightarrow> length r < length s"
proof (induction n s and n s and n s arbitrary: v r and vs r and ms r rule: jvalue_jelements_jmembers.pinduct)
  case (1 n s)
  show ?case
  proof (cases "skip_space s")
    case (Cons c t)
    have M: "length r < length t" if "jmembers (Suc n) t = Got x r" "c = CHR ''{''" "\<not> maxNestingDepth \<le> n"
      "skip_space t = d # u" "d \<noteq> CHR ''}''" for x d u
      using that "1.IH"(1) [OF Cons] by blast
    have E: "length r < length t" if "jelements (Suc n) t = Got x r" "c = CHR ''[''" "\<not> maxNestingDepth \<le> n"
      "skip_space t = d # u" "d \<noteq> CHR '']''" for x d u
      using that "1.IH"(2) [OF Cons] by auto
    have "length r < length t \<or> length r \<le> length t \<or> length r < Suc (length t)"
      using "1.prems"
      by (auto simp: jvalue.psimps [OF "1.hyps"] Cons split: list.splits if_splits
          dest!: str_body_short number_short word_rest_short M E dest: skip_short)
    then show ?thesis using skip_short [OF Cons] by auto
  qed (use "1.prems" in \<open>simp add: jvalue.psimps [OF "1.hyps"]\<close>)
next
  case (2 n s)
  obtain w r1 where V: "jvalue n s = Got w r1"
    using "2.prems" by (auto simp: jelements.psimps [OF "2.hyps"] split: scan.splits)
  obtain c t where S: "skip_space r1 = c # t"
    using "2.prems" by (auto simp: jelements.psimps [OF "2.hyps"] V split: list.splits)
  have E: "length r < length t" if "jelements n t = Got x r" "c = CHR '',''" for x
    using that "2.IH"(2) [OF V S] by blast
  have "length r \<le> length t"
    using "2.prems" by (auto simp: jelements.psimps [OF "2.hyps"] V S split: if_splits dest!: E)
  then show ?case using skip_short [OF S] "2.IH"(1) [OF V] by simp
next
  case (3 n s)
  obtain c t where S: "skip_space s = c # t" "c = quote_char"
    using "3.prems" by (auto simp: jmembers.psimps [OF "3.hyps"] split: list.splits if_splits)
  obtain k r1 where K: "str_body t = Got k r1"
    using "3.prems" by (auto simp: jmembers.psimps [OF "3.hyps"] S split: scan.splits)
  obtain d u where D: "skip_space r1 = d # u" "d = CHR '':''"
    using "3.prems" by (auto simp: jmembers.psimps [OF "3.hyps"] S K split: list.splits if_splits)
  obtain w r2 where V: "jvalue n u = Got w r2"
    using "3.prems" by (auto simp: jmembers.psimps [OF "3.hyps"] S K D split: scan.splits)
  obtain e x where E: "skip_space r2 = e # x"
    using "3.prems" by (auto simp: jmembers.psimps [OF "3.hyps"] S K D V split: list.splits)
  have s: "length t < length s" "length r1 < length t" "length u < length r1" "length x < length r2"
    using skip_short [OF S(1)] str_body_short [OF K] skip_short [OF D(1)] skip_short [OF E] by simp_all
  have v: "length r2 < length u" using "3.IH"(1) [OF S(1) _ K D(1)] S(2) D(2) V by simp
  have M: "length r < length x" if "jmembers n x = Got y r" "e = CHR '',''" for y
    using "3.IH"(2) [OF S(1) _ K D(1) _ V E] that S(2) D(2) by blast
  have "length r \<le> length x"
    using "3.prems" by (auto simp: jmembers.psimps [OF "3.hyps"] S K D V E split: if_splits dest!: M)
  then show ?case using s v by simp
qed

termination jvalue
  by (relation "measure (\<lambda>x. case x of Inl (n, s) \<Rightarrow> 2 * length s
        | Inr (Inl (n, s)) \<Rightarrow> Suc (2 * length s) | Inr (Inr (n, s)) \<Rightarrow> 2 * length s)")
    (auto dest!: skip_short str_body_short jvalue_short)

declare jvalue.simps [simp del] jelements.simps [simp del] jmembers.simps [simp del]

text \<open>
  \<open>Decoder.Decode\<close> up to the value: what comes from the stream, and the error that ends it unless
  it is its end.  The end of a number, string or word is only seen by what follows it.
\<close>

definition jscalar :: "json \<Rightarrow> bool" where
  "jscalar v = (case v of JArr _ \<Rightarrow> False | JObj _ \<Rightarrow> False | _ \<Rightarrow> True)"

definition read_json :: "string \<Rightarrow> go_error option \<Rightarrow> go_error + json" where
  "read_json s err =
     (case jvalue 0 s of
        Malformed \<Rightarrow> Inl ErrJsonSyntax
      | Truncated \<Rightarrow> (case err of Some e \<Rightarrow> Inl e | None \<Rightarrow> Inl (if skip_space s = [] then EOF else ErrUnexpectedEOF))
      | Got v r \<Rightarrow> (case err of
                      Some e \<Rightarrow> if r = [] \<and> jscalar v then Inl e else Inr v
                    | None \<Rightarrow> Inr v))"

section \<open>Writing strings\<close>

text \<open>
  The inside of a string as the encoder writes it: quotes, backslashes, control characters and the characters
  that matter in HTML are escaped, and so are U+2028 and U+2029.
\<close>

definition escape_ascii :: "char \<Rightarrow> string" where
  "escape_ascii c =
     (if c = quote_char \<or> c = backslash then [backslash, c]
      else if c = CHR 0x08 then [backslash, CHR ''b'']
      else if c = CHR 0x0C then [backslash, CHR ''f'']
      else if c = CHR 0x0A then [backslash, CHR ''n'']
      else if c = CHR 0x0D then [backslash, CHR ''r'']
      else if c = CHR 0x09 then [backslash, CHR ''t'']
      else if byte_of c < 0x20 \<or> c = CHR ''<'' \<or> c = CHR ''>'' \<or> c = CHR ''&''
      then [backslash, CHR ''u'', CHR ''0'', CHR ''0'', hex_digit (byte_of c div 16), hex_digit (byte_of c mod 16)]
      else [c])"

function quote_body :: "string \<Rightarrow> string" where
  "quote_body [] = []"
| "quote_body (c # s) =
     (if byte_of c < 0x80 then escape_ascii c @ quote_body s
      else (let n = rune_len (c # s); x = take n (c # s)
            in if n = 0 then [backslash] @ ''ufffd'' @ quote_body s
               else if x = encode_rune 0x2028 then [backslash] @ ''u2028'' @ quote_body (drop (n - 1) s)
               else if x = encode_rune 0x2029 then [backslash] @ ''u2029'' @ quote_body (drop (n - 1) s)
               else x @ quote_body (drop (n - 1) s)))"
  by pat_completeness auto
termination by (relation "measure length") auto

declare quote_body.simps(2) [simp del]

definition quote :: "string \<Rightarrow> string" where
  "quote s = quote_char # quote_body s @ [quote_char]"

section \<open>Reading what was written\<close>

lemma hexit_digit: "n < 16 \<Longrightarrow> is_hexit (hex_digit n) \<and> hexit_val (hex_digit n) = n"
  by (simp add: hex_digit_def is_hexit_def between_def hexit_val_def of_char_of)

lemma append_one [simp]: "append [c] = Cons c"
  by (simp add: fun_eq_iff)

lemma scan_map_id [simp]: "scan_map (\<lambda>x. x) m = m"
  by (cases m) auto

lemma scan_map_comp [simp]: "scan_map f (scan_map g m) = scan_map (\<lambda>x. f (g x)) m"
  by (cases m) auto

text \<open>One character that is not special stands for itself.\<close>

lemma str_body_plain:
  "c \<noteq> quote_char \<Longrightarrow> c \<noteq> backslash \<Longrightarrow> 0x20 \<le> byte_of c \<Longrightarrow> byte_of c < 0x80 \<Longrightarrow>
   str_body (c # u) = scan_map (Cons c) (str_body u)"
  by (simp add: str_body.simps(2) Let_def fun_eq_iff)

lemma str_body_unicode:
  assumes "length h = 4" "list_all is_hexit h" "hex_value h < 0xD800 \<or> 0xE000 \<le> hex_value h"
  shows "str_body (backslash # CHR ''u'' # h @ u) = scan_map (append (encode_rune (hex_value h))) (str_body u)"
  using assms by (auto simp: str_body.simps(2) Let_def simple_escape_def)

lemma str_body_escape:
  assumes "byte_of c < 0x80"
  shows "str_body (escape_ascii c @ u) = scan_map (Cons c) (str_body u)"
proof -
  define short where "short \<longleftrightarrow> c \<in> {quote_char, backslash, CHR 0x08, CHR 0x0C, CHR 0x0A, CHR 0x0D, CHR 0x09}"
  define html where "html \<longleftrightarrow> byte_of c < 0x20 \<or> c = CHR ''<'' \<or> c = CHR ''>'' \<or> c = CHR ''&''"
  consider "short" | "\<not> short" "html" | "\<not> short" "\<not> html" by blast
  then show ?thesis
  proof cases
    case 1
    then show ?thesis
      by (auto simp: short_def escape_ascii_def str_body.simps(2) simple_escape_def)
  next
    case 2
    let ?h = "[CHR ''0'', CHR ''0'', hex_digit (byte_of c div 16), hex_digit (byte_of c mod 16)]"
    have "byte_of c div 16 < 16" using assms by simp
    then have h: "list_all is_hexit ?h" "hex_value ?h = byte_of c"
      using hexit_digit [of "byte_of c div 16"] hexit_digit [of "byte_of c mod 16"] hexit_digit [of 0]
      by (simp_all add: hex_value_def is_hexit_def between_def hexit_val_def)
    have "str_body (backslash # CHR ''u'' # ?h @ u) = scan_map (append (encode_rune (hex_value ?h))) (str_body u)"
      by (rule str_body_unicode) (use h assms in simp_all)
    moreover have "encode_rune (hex_value ?h) = [c]" using assms unfolding h(2) by (simp add: encode_rune_def)
    moreover have "escape_ascii c = backslash # CHR ''u'' # ?h" using 2 by (auto simp: short_def html_def escape_ascii_def)
    ultimately show ?thesis by (simp add: fun_eq_iff)
  next
    case 3
    then show ?thesis using assms by (auto simp: short_def html_def escape_ascii_def str_body_plain)
  qed
qed

lemma str_body_rune:
  assumes "rune_len (c # s) = n" "0 < n" "0x80 \<le> byte_of c"
  shows "str_body (take n (c # s) @ u) = scan_map (append (take n (c # s))) (str_body u)"
proof -
  obtain m where m: "n = Suc m" using assms(2) by (cases n) auto
  have len: "n \<le> Suc (length s)" using rune_len_bound [of "c # s"] assms(1) by simp
  have r: "rune_len (c # take m s @ u) = n" using rune_len_take [OF assms(1,2), of u] m by simp
  have "c \<noteq> quote_char" "c \<noteq> backslash" using assms(3) by auto
  then show ?thesis
    using assms(3) r len m by (simp add: str_body.simps(2) Let_def)
qed

theorem str_body_quote: "str_body (quote_body s @ quote_char # u) = Got (sanitize s) u"
proof (induction s arbitrary: u rule: quote_body.induct)
  case 1
  then show ?case by (simp add: str_body.simps(2))
next
  case (2 c s)
  show ?case
  proof (cases "byte_of c < 0x80")
    case True
    then show ?thesis
      using "2.IH"(1) str_body_escape [OF True]
      by (simp add: quote_body.simps(2) sanitize.simps(2))
  next
    case big: False
    define n where "n = rune_len (c # s)"
    have u: "str_body (backslash # CHR ''u'' # h @ v) = scan_map (append (encode_rune (hex_value h))) (str_body v)"
      if "h \<in> {''fffd'', ''2028'', ''2029''}" for h v
      using that by (intro str_body_unicode) (auto simp: is_hexit_def between_def hex_value_def hexit_val_def)
    have e: "encode_rune (hex_value ''fffd'') = replacement" "hex_value ''2028'' = 0x2028" "hex_value ''2029'' = 0x2029"
      by (simp_all add: encode_rune_def replacement_def hex_value_def hexit_val_def char_of_def bit_iff_odd)
    show ?thesis
    proof (cases "n = 0")
      case True
      then show ?thesis
        using "2.IH"(2) big u [of "''fffd''"] e(1) n_def
        by (simp add: quote_body.simps(2) sanitize.simps(2) Let_def)
    next
      case False
      then have x: "str_body (take n (c # s) @ v) = scan_map (append (take n (c # s))) (str_body v)" for v
        using big by (intro str_body_rune) (simp_all add: n_def)
      have IH: "str_body (quote_body (drop (n - 1) s) @ quote_char # u) = Got (sanitize (drop (n - 1) s)) u"
        using "2.IH"(3) [OF big n_def refl False] "2.IH"(4) [OF big n_def refl False] "2.IH"(5) [OF big n_def refl False]
        by blast
      show ?thesis
        using big u [of "''2028''"] u [of "''2029''"] e(2,3) n_def False IH x
        by (simp add: quote_body.simps(2) sanitize.simps(2) Let_def)
    qed
  qed
qed

lemma skip_stop [simp]: "\<not> isSpace c \<Longrightarrow> skip_space (c # s) = c # s" "skip_space [] = []"
  by (simp_all add: skip_space_def)

lemma isSpace_simps [simp]:
  "\<not> isSpace quote_char" "\<not> isSpace (CHR ''{'')" "\<not> isSpace (CHR ''}'')" "\<not> isSpace (CHR ''['')"
  "\<not> isSpace (CHR '']'')" "\<not> isSpace (CHR '','')" "\<not> isSpace (CHR '':'')"
  by (simp_all add: isSpace_def)

lemma jvalue_quote: "jvalue n (quote s @ t) = Got (JStr (sanitize s)) t"
  by (simp add: quote_def jvalue.simps str_body_quote)

text \<open>
  An encoding that a reader gives back, whatever follows it: the array of such encodings, and the
  object with such encodings as its values, are read back too.
\<close>

locale json_codec =
  fixes enc :: "'a \<Rightarrow> string" and val :: "'a \<Rightarrow> json"
  assumes reads: "jvalue n (enc x @ t) = Got (val x) t"
    and starts: "enc x \<noteq> []" "\<not> isSpace (hd (enc x))" "hd (enc x) \<noteq> CHR '']''"
begin

lemma elements:
  "xs \<noteq> [] \<Longrightarrow> jelements n (Join (map enc xs) '','' @ CHR '']'' # t) = Got (map val xs) t"
proof (induction xs rule: induct_list012)
  case (2 x)
  then show ?case by (simp add: jelements.simps reads)
next
  case (3 x y zs)
  have "jvalue n (enc x @ CHR '','' # u) = Got (val x) (CHR '','' # u)" for u by (rule reads)
  then show ?case using "3.IH"(2) by (simp add: jelements.simps [of n "enc x @ u" for u])
qed simp

lemma array:
  assumes "n < maxNestingDepth"
  shows "jvalue n (CHR ''['' # Join (map enc xs) '','' @ CHR '']'' # t) = Got (JArr (map val xs)) t"
proof (cases xs)
  case (Cons x ys)
  obtain c u where x: "enc x = c # u" using starts(1) [of x] by (cases "enc x") auto
  have "\<exists>v. Join (map enc xs) '','' = c # v" using Cons x by (cases ys) auto
  then show ?thesis
    using elements [of xs "Suc n" t] assms Cons x starts(2,3) [of x] by (auto simp: jvalue.simps)
qed (use assms in \<open>simp add: jvalue.simps\<close>)

end

interpretation str: json_codec quote "\<lambda>s. JStr (sanitize s)"
  by unfold_locales (simp_all add: jvalue_quote, simp_all add: quote_def)

section \<open>Objects\<close>

definition enc_member :: "string \<times> string \<Rightarrow> string" where
  "enc_member m = (case m of (k, e) \<Rightarrow> quote k @ CHR '':'' # e)"

definition enc_object :: "(string \<times> string) list \<Rightarrow> string" where
  "enc_object ms = CHR ''{'' # Join (map enc_member ms) '','' @ ''}''"

text \<open>An encoded member and the value it is read as.\<close>

definition reads_as :: "nat \<Rightarrow> string \<times> string \<Rightarrow> string \<times> json \<Rightarrow> bool" where
  "reads_as n m kv \<longleftrightarrow> fst kv = sanitize (fst m) \<and> (\<forall>t. jvalue n (snd m @ t) = Got (snd kv) t)"

lemma members:
  assumes "list_all2 (reads_as n) ms kvs" "ms \<noteq> []"
  shows "jmembers n (Join (map enc_member ms) '','' @ CHR ''}'' # t) = Got kvs t"
  using assms
proof (induction ms kvs rule: list_all2_induct)
  case (Cons m ms kv kvs)
  have head: "jmembers n (enc_member m @ u) =
      (case skip_space u of
         [] \<Rightarrow> Truncated
       | e # w \<Rightarrow> if e = CHR '','' then scan_map (Cons kv) (jmembers n w)
                  else if e = CHR ''}'' then Got [kv] w else Malformed)" for u
    using Cons.hyps(1)
    by (cases kv; cases m) (auto simp: jmembers.simps [of n "quote_char # v" for v] enc_member_def quote_def str_body_quote
        reads_as_def split: prod.split)
  show ?case
  proof (cases ms)
    case Nil
    then show ?thesis using Cons.hyps by (simp add: head)
  next
    case (Cons m' ms')
    then show ?thesis using Cons.IH by (simp add: head)
  qed
qed simp

lemma object_reads:
  assumes "list_all2 (reads_as (Suc n)) ms kvs" "n < maxNestingDepth"
  shows "jvalue n (enc_object ms @ t) = Got (JObj kvs) t"
proof (cases ms)
  case Nil
  then show ?thesis using assms by (simp add: jvalue.simps enc_object_def)
next
  case (Cons m ms')
  obtain k e where m: "m = (k, e)" by (cases m)
  have "\<exists>v. Join (map enc_member ms) '','' = quote_char # v"
    by (cases ms') (auto simp: m Cons enc_member_def quote_def)
  then show ?thesis
    using members [OF assms(1), of t] Cons assms(2) by (auto simp: jvalue.simps enc_object_def)
qed

section \<open>Decoding into structs\<close>

text \<open>
  The names of a struct's fields are matched exactly or else without regard to case, where the
  long s and the Kelvin sign count as letters.
\<close>

fun fold_name :: "string \<Rightarrow> string" where
  "fold_name (a # b # c # s) =
     (if [a, b] = [CHR 0xC5, CHR 0xBF] then CHR ''S'' # fold_name (c # s)
      else if [a, b, c] = [CHR 0xE2, CHR 0x84, CHR 0xAA] then CHR ''K'' # fold_name s
      else (if between 97 a 122 then char_of (byte_of a - 32) else a) # fold_name (b # c # s))"
| "fold_name [a, b] =
     (if [a, b] = [CHR 0xC5, CHR 0xBF] then ''S''
      else (if between 97 a 122 then char_of (byte_of a - 32) else a) # fold_name [b])"
| "fold_name [a] = [if between 97 a 122 then char_of (byte_of a - 32) else a]"
| "fold_name [] = []"

definition field_named :: "string list \<Rightarrow> string \<Rightarrow> string option" where
  "field_named names k = (if k \<in> set names then Some k else find (\<lambda>f. fold_name f = fold_name k) names)"

text \<open>A value for a field of type string: whether it fits, and what is stored.\<close>

fun fits_string :: "json \<Rightarrow> bool" where
  "fits_string (JStr s) = True"
| "fits_string JNull = True"
| "fits_string _ = False"

fun store_string :: "json \<Rightarrow> string \<Rightarrow> string" where
  "store_string (JStr s) old = s"
| "store_string _ old = old"

text \<open>
  A number becomes a \<open>float64\<close>; one that rounds to infinity is an error.  The exponent is read as
  \<open>strconv.ParseFloat\<close> reads it, which stops at five digits.
\<close>

definition dec_value :: "string \<Rightarrow> nat" where
  "dec_value s = fold (\<lambda>c n. n * 10 + digit_val c) s 0"

definition exp_value :: "string \<Rightarrow> int" where
  "exp_value s =
     (let ds = fold (\<lambda>c n. if n < 10000 then n * 10 + digit_val c else n) (filter is_digit s) 0
      in if CHR ''-'' \<in> set s then - int ds else int ds)"

definition float_overflow :: "string \<Rightarrow> bool" where
  "float_overflow lit =
     (let s = (if lit \<noteq> [] \<and> hd lit = CHR ''-'' then tl lit else lit);
          i = takeWhile is_digit s; r = dropWhile is_digit s;
          f = (if r \<noteq> [] \<and> hd r = CHR ''.'' then takeWhile is_digit (tl r) else []);
          e = (if r \<noteq> [] \<and> hd r = CHR ''.'' then dropWhile is_digit (tl r) else r);
          x = exp_value e - int (length f); m = dec_value (i @ f); limit = 2 ^ 1024 - 2 ^ 970
      in if 0 \<le> x then limit \<le> m * 10 ^ nat x else limit * 10 ^ nat (- x) \<le> m)"

text \<open>A value for a field of type \<open>any\<close>: whether it fits, and what is stored.\<close>

fun fits_any :: "json \<Rightarrow> bool" where
  "fits_any (JNum l) = (\<not> float_overflow l)"
| "fits_any (JArr vs) = list_all fits_any vs"
| "fits_any (JObj ms) = list_all (\<lambda>(k, v). fits_any v) ms"
| "fits_any _ = True"

text \<open>What is stored: of two members with one key the later counts.\<close>

fun any_value :: "json \<Rightarrow> json" where
  "any_value (JArr vs) = JArr (map any_value vs)"
| "any_value (JObj ms) = JObj (fold (\<lambda>(k, v). map_put k v) (map (\<lambda>(k, v). (k, any_value v)) ms) [])"
| "any_value v = v"

text \<open>A value read from a stream, whatever follows it, when its own end shows.\<close>

lemma read_json_reads: "(\<And>t. jvalue 0 (s @ t) = Got v t) \<Longrightarrow> \<not> jscalar v \<Longrightarrow> read_json (s @ t) err = Inr v"
  by (simp add: read_json_def split: option.split)

end
