(* ===== verification/Chromium_Client.thy ===== *)
theory Chromium_Client
  imports Go_Json
begin

text \<open>
  Model of \<open>internal/chromium/chromium.go\<close>: one request for \<open>/json/version\<close> and the loop that
  repeats it with growing pauses until it succeeds or the context's deadline has passed.  The
  network and the clock are parameters: what each attempt meets, how long it takes, and how
  much longer than asked the pause after it lasts.
\<close>

record VersionInfo =
  Browser :: string
  ProtocolVersion :: string
  UserAgent :: string
  V8Version :: string
  WebKitVersion :: string
  WebSocketDebuggerURL :: string

text \<open>The names of the fields in JSON, and the fields by name.\<close>

definition version_names :: "string list" where
  "version_names =
     [''Browser'', ''Protocol-Version'', ''User-Agent'', ''V8-Version'', ''WebKit-Version'', ''webSocketDebuggerUrl'']"

definition version_values :: "VersionInfo \<Rightarrow> string list" where
  "version_values v =
     [Browser v, ProtocolVersion v, UserAgent v, V8Version v, WebKitVersion v, WebSocketDebuggerURL v]"

definition set_version_field :: "string \<times> json \<Rightarrow> VersionInfo \<Rightarrow> VersionInfo" where
  "set_version_field m v =
     (case field_named version_names (fst m) of
        None \<Rightarrow> v
      | Some f \<Rightarrow>
          if f = ''Browser'' then v\<lparr>Browser := store_string (snd m) (Browser v)\<rparr>
          else if f = ''Protocol-Version'' then v\<lparr>ProtocolVersion := store_string (snd m) (ProtocolVersion v)\<rparr>
          else if f = ''User-Agent'' then v\<lparr>UserAgent := store_string (snd m) (UserAgent v)\<rparr>
          else if f = ''V8-Version'' then v\<lparr>V8Version := store_string (snd m) (V8Version v)\<rparr>
          else if f = ''WebKit-Version'' then v\<lparr>WebKitVersion := store_string (snd m) (WebKitVersion v)\<rparr>
          else v\<lparr>WebSocketDebuggerURL := store_string (snd m) (WebSocketDebuggerURL v)\<rparr>)"

definition no_version :: VersionInfo where
  "no_version = \<lparr>Browser = [], ProtocolVersion = [], UserAgent = [], V8Version = [], WebKitVersion = [],
     WebSocketDebuggerURL = []\<rparr>"

text \<open>
  Decoding a value into a fresh \<^typ>\<open>VersionInfo\<close>: members with other names are skipped; of members that
  name one field the last counts; a member that does not fit is an error in the end.
\<close>

definition decode_version :: "json \<Rightarrow> go_error + VersionInfo" where
  "decode_version j =
     (case j of
        JNull \<Rightarrow> Inr no_version
      | JObj ms \<Rightarrow>
          if list_all (\<lambda>m. field_named version_names (fst m) = None \<or> fits_string (snd m)) ms
          then Inr (fold set_version_field ms no_version) else Inl ErrJsonType
      | _ \<Rightarrow> Inl ErrJsonType)"

text \<open>The encoding of a \<^typ>\<open>VersionInfo\<close>, as chromium's endpoint and the program's own answers have it.\<close>

definition encode_version :: "VersionInfo \<Rightarrow> string" where
  "encode_version v = enc_object (zip version_names (map quote (version_values v)))"

text \<open>
  What one attempt meets: the request cannot be built, no response arrives (before the
  attempt's own timeout), or a response arrives: its status, the bytes of its body, and the error that ends
  the body if reading does not come to its end.
\<close>

datatype reply =
    NoRequest go_error
  | NoResponse go_error
  | Response int string "go_error option"

definition version_timeout :: duration where
  "version_timeout = 500 * millisecond"

definition version :: "reply \<Rightarrow> go_error + VersionInfo" where
  "version r =
     (case r of
        NoRequest err \<Rightarrow> Inl (Errorf ''building request: %w'' [] (Some err))
      | NoResponse err \<Rightarrow> Inl (Errorf ''making request: %w'' [] (Some err))
      | Response status bytes ended \<Rightarrow>
          (case (case read_json bytes ended of Inl err \<Rightarrow> Inl err | Inr j \<Rightarrow> decode_version j) of
             Inl err \<Rightarrow> Inl (Errorf ''decoding response body: %w'' [] (Some err))
           | Inr versionInfo \<Rightarrow> Inr versionInfo))"

section \<open>Reading what was encoded\<close>

definition valid_version :: "VersionInfo \<Rightarrow> VersionInfo" where
  "valid_version v =
     \<lparr>Browser = sanitize (Browser v), ProtocolVersion = sanitize (ProtocolVersion v), UserAgent = sanitize (UserAgent v),
      V8Version = sanitize (V8Version v), WebKitVersion = sanitize (WebKitVersion v),
      WebSocketDebuggerURL = sanitize (WebSocketDebuggerURL v)\<rparr>"

definition version_json :: "VersionInfo \<Rightarrow> json" where
  "version_json v = JObj (zip version_names (map JStr (version_values v)))"

lemma sanitize_names: "map sanitize version_names = version_names"
  by (simp add: version_names_def sanitize_ascii ascii_def)

lemma jvalue_version:
  assumes "n < maxNestingDepth"
  shows "jvalue n (encode_version v @ t) = Got (version_json (valid_version v)) t"
  unfolding encode_version_def version_json_def
proof (rule object_reads [OF _ assms])
  show "list_all2 (reads_as (Suc n)) (zip version_names (map quote (version_values v)))
     (zip version_names (map JStr (version_values (valid_version v))))"
    using sanitize_names
    by (simp add: version_names_def version_values_def valid_version_def reads_as_def jvalue_quote)
qed

lemma decode_version_json: "decode_version (version_json v) = Inr v"
proof -
  have f: "field_named version_names k = Some k" if "k \<in> set version_names" for k
    using that by (simp add: field_named_def)
  have "decode_version (version_json v) = Inr (fold set_version_field (zip version_names (map JStr (version_values v))) no_version)"
    by (simp add: decode_version_def version_json_def version_names_def version_values_def)
  also have "\<dots> = Inr v"
    using f by (simp add: version_names_def version_values_def set_version_field_def no_version_def)
  finally show ?thesis .
qed

lemma version_encoded: "version (Response st (encode_version v @ t) err) = Inr (valid_version v)"
proof -
  have "read_json (encode_version v @ t) err = Inr (version_json (valid_version v))"
    by (rule read_json_reads) (simp_all add: jvalue_version maxNestingDepth_def jscalar_def version_json_def)
  then show ?thesis by (simp add: version_def decode_version_json)
qed

lemma valid_version_ascii: "list_all ascii (version_values v) \<Longrightarrow> valid_version v = v"
  by (simp add: valid_version_def version_values_def sanitize_ascii)

text \<open>
  An attempt: what the request met, the time until that was known, and how much longer than asked
  the pause after it lasted; \<open>time.Sleep\<close> promises only a minimum.
\<close>

record attempt =
  met :: reply
  took :: nat
  overslept :: nat

text \<open>
  What an attempt is for a request under the context \<open>version\<close> makes for it: when what would settle
  it comes within 500 ms nothing changes; otherwise the request fails with the context's error,
  \<open>late\<close> being what the client takes to notice.  The caller's own deadline can make a request fail
  earlier; that is an attempt of its own, with an error and the time it took.
\<close>

definition with_timeout :: "nat \<Rightarrow> attempt \<Rightarrow> attempt" where
  "with_timeout late a =
     (if int (took a) \<le> version_timeout then a
      else a\<lparr>met := NoResponse DeadlineExceeded, took := nat version_timeout + late\<rparr>)"

lemma with_timeout_took [simp]:
  "int (took (with_timeout late a)) \<le> 500 * millisecond + int late"
  "overslept (with_timeout late a) = overslept a"
  by (simp_all add: with_timeout_def version_timeout_def)

text \<open>
  The value of the variable \<open>delay\<close> in the round with the given number: 100 ms, then each time
  half as much again, in integer nanoseconds.
\<close>

fun backoff :: "nat \<Rightarrow> duration" where
  "backoff 0 = 100 * millisecond"
| "backoff (Suc i) = backoff i + backoff i div 2"

lemma backoff_ge: "100 * millisecond \<le> backoff i"
  by (induction i) auto

lemma backoff_pos: "0 < backoff i"
  using backoff_ge [of i] by linarith

text \<open>
  The loop of \<open>Version\<close>, from round \<open>i\<close> at time \<open>now\<close>: its result, the time it returns and the
  number of requests made by then.  The pause of a round is not cut short by the context.
\<close>

function Version_loop ::
    "(nat \<Rightarrow> attempt) \<Rightarrow> instant \<Rightarrow> nat \<Rightarrow> instant \<Rightarrow> (go_error + VersionInfo) \<times> instant \<times> nat" where
  "Version_loop world deadline i now =
     (if deadline \<le> now
      then (Inl (Errorf ''retries exhausted trying to reach chromium: %w'' [] (Some DeadlineExceeded)),
            now, i)
      else (let a = world i; finished = now + int (took a)
            in (case version (met a) of
                  Inr versionInfo \<Rightarrow> (Inr versionInfo, finished, Suc i)
                | Inl _ \<Rightarrow>
                    Version_loop world deadline (Suc i) (finished + backoff i + int (overslept a)))))"
  by pat_completeness auto
termination
proof (relation "measure (\<lambda>(world, deadline, i, now). nat (deadline - now))", goal_cases)
  case (2 world deadline i now)
  then show ?case using backoff_pos [of i] by (simp add: nat_less_iff)
qed simp

declare Version_loop.simps [simp del]

definition Version :: "(nat \<Rightarrow> attempt) \<Rightarrow> instant \<Rightarrow> instant \<Rightarrow> (go_error + VersionInfo) \<times> instant \<times> nat" where
  "Version world deadline now = Version_loop world deadline 0 now"

section \<open>The pauses\<close>

definition slept :: "nat \<Rightarrow> duration" where
  "slept n = (\<Sum>i < n. backoff i)"

lemma slept_Suc [simp]: "slept 0 = 0" "slept (Suc n) = slept n + backoff n"
  by (simp_all add: slept_def)

lemma slept_mono: "m \<le> n \<Longrightarrow> slept m \<le> slept n"
  unfolding slept_def by (rule sum_mono2) (auto simp: less_imp_le [OF backoff_pos])

text \<open>The pause of a round is at most 100 ms more than half of all the pauses before it.\<close>

lemma backoff_slept: "2 * backoff n \<le> 200 * millisecond + slept n"
  by (induction n) auto

section \<open>The loop\<close>

lemma loop_expired:
  "deadline \<le> now \<Longrightarrow> Version_loop world deadline i now =
     (Inl (Errorf ''retries exhausted trying to reach chromium: %w'' [] (Some DeadlineExceeded)), now, i)"
  by (simp add: Version_loop.simps)

lemma loop_ok:
  "now < deadline \<Longrightarrow> version (met (world i)) = Inr v \<Longrightarrow>
   Version_loop world deadline i now = (Inr v, now + int (took (world i)), Suc i)"
  by (simp add: Version_loop.simps [of world deadline i now] Let_def)

lemma loop_retry:
  "now < deadline \<Longrightarrow> version (met (world i)) = Inl e \<Longrightarrow>
   Version_loop world deadline i now =
     Version_loop world deadline (Suc i)
       (now + int (took (world i)) + backoff i + int (overslept (world i)))"
  by (simp add: Version_loop.simps [of world deadline i now] Let_def)

lemma loop_cases [consumes 1, case_names expired ok retry]:
  assumes "Version_loop world deadline i now = (r, t, n)"
  obtains "deadline \<le> now" "t = now" "n = i"
      "r = Inl (Errorf ''retries exhausted trying to reach chromium: %w'' [] (Some DeadlineExceeded))"
  | v where "now < deadline" "version (met (world i)) = Inr v" "r = Inr v"
      "t = now + int (took (world i))" "n = Suc i"
  | e where "now < deadline" "version (met (world i)) = Inl e"
      "Version_loop world deadline (Suc i)
         (now + int (took (world i)) + backoff i + int (overslept (world i))) = (r, t, n)"
  using assms
  by (cases "deadline \<le> now"; cases "version (met (world i))")
    (auto simp: loop_expired loop_ok loop_retry not_le)

text \<open>What the loop has done when it returns, whatever the attempts met.\<close>

lemma loop_result:
  assumes "Version_loop world deadline i now = (r, t, n)"
  shows "i \<le> n \<and> (\<forall>j. i \<le> j \<longrightarrow> Suc j < n \<longrightarrow> (\<exists>e. version (met (world j)) = Inl e)) \<and>
    (case r of
       Inr v \<Rightarrow> i < n \<and> version (met (world (n - 1))) = Inr v
     | Inl e \<Rightarrow> deadline \<le> t \<and> errors_Is e DeadlineExceeded \<and>
         (\<forall>j. i \<le> j \<longrightarrow> j < n \<longrightarrow> (\<exists>e. version (met (world j)) = Inl e)))"
  using assms
proof (induction world deadline i now rule: Version_loop.induct)
  case (1 world deadline i now)
  from "1.prems" show ?case
  proof (cases rule: loop_cases)
    case (retry e)
    let ?now = "now + int (took (world i)) + backoff i + int (overslept (world i))"
    have "\<not> deadline \<le> now" using retry(1) by simp
    from "1.IH" [OF this refl refl retry(2) retry(3)]
    have IH: "Suc i \<le> n \<and> (\<forall>j. Suc i \<le> j \<longrightarrow> Suc j < n \<longrightarrow> (\<exists>e. version (met (world j)) = Inl e)) \<and>
      (case r of
         Inr v \<Rightarrow> Suc i < n \<and> version (met (world (n - 1))) = Inr v
       | Inl e \<Rightarrow> deadline \<le> t \<and> errors_Is e DeadlineExceeded \<and>
           (\<forall>j. Suc i \<le> j \<longrightarrow> j < n \<longrightarrow> (\<exists>e. version (met (world j)) = Inl e)))" .
    moreover have "i \<le> j \<longleftrightarrow> j = i \<or> Suc i \<le> j" for j by auto
    ultimately show ?thesis using retry(2) by (auto split: sum.splits)
  qed auto
qed

text \<open>
  The pauses before the last request fit between the start and the deadline, whatever else took
  time; and only the last round can end after the deadline.
\<close>

lemma loop_time:
  assumes "Version_loop world deadline i now = (r, t, n)" "slept i \<le> now - start" "i < n"
  shows "slept (n - 1) < deadline - start \<and>
    t \<le> deadline + int (took (world (n - 1))) + backoff (n - 1) + int (overslept (world (n - 1)))"
  using assms
proof (induction world deadline i now rule: Version_loop.induct)
  case (1 world deadline i now)
  from "1.prems"(1) show ?case
  proof (cases rule: loop_cases)
    case expired
    then show ?thesis using "1.prems"(3) by simp
  next
    case (ok v)
    then show ?thesis using "1.prems"(2) backoff_pos [of i] by auto
  next
    case (retry e)
    have d: "\<not> deadline \<le> now" using retry(1) by simp
    show ?thesis
    proof (cases "Suc i < n")
      case True
      have "slept (Suc i) \<le> now + int (took (world i)) + backoff i + int (overslept (world i)) - start"
        using "1.prems"(2) by simp
      from "1.IH" [OF d refl refl retry(2) retry(3) this True] show ?thesis .
    next
      case False
      then have n: "n = Suc i" using "1.prems"(3) by simp
      from retry(3) have "t = now + int (took (world i)) + backoff i + int (overslept (world i))"
      proof (cases rule: loop_cases)
        case (retry e)
        then show ?thesis using n loop_result [OF retry(3)] by simp
      qed (use n in simp_all)
      moreover note n
      ultimately show ?thesis using retry(1) "1.prems"(2) by simp
    qed
  qed
qed

lemma loop_attempts:
  assumes "Version_loop world deadline i now = (r, t, n)" "now < deadline"
  shows "i < n"
  using assms(1)
proof (cases rule: loop_cases)
  case (retry e)
  then show ?thesis using loop_result [OF retry(3)] by auto
qed (use assms(2) in auto)

section \<open>Properties\<close>

text \<open>
  C29.  The probe reports the first success.  \<open>Version\<close> always returns; it returns the answer of
  an attempt exactly when that attempt succeeded and every attempt before it failed, and
  otherwise it returns an error that wraps the context's, no earlier than the deadline and
  after only failures.
\<close>

theorem Version_first_success:
  assumes "Version world deadline now = (r, t, n)"
  shows "case r of
       Inr v \<Rightarrow> 0 < n \<and> version (met (world (n - 1))) = Inr v \<and>
         (\<forall>j < n - 1. \<exists>e. version (met (world j)) = Inl e)
     | Inl e \<Rightarrow> deadline \<le> t \<and> errors_Is e DeadlineExceeded \<and>
         (\<forall>j < n. \<exists>e. version (met (world j)) = Inl e)"
  using loop_result [OF assms [unfolded Version_def]] by (auto split: sum.splits)

definition refused :: attempt where
  "refused = \<lparr>met = NoResponse (ErrExt ''connection refused''), took = 1000000, overslept = 0\<rparr>"

definition sample_version :: VersionInfo where
  "sample_version =
     \<lparr>Browser = ''HeadlessChrome/124.0'', ProtocolVersion = ''1.3'',
      UserAgent = ''Mozilla/5.0 HeadlessChrome/124.0'', V8Version = ''12.4'', WebKitVersion = ''537.36'',
      WebSocketDebuggerURL = ''ws://127.0.0.1:5222/devtools/browser/a''\<rparr>"

definition answered :: attempt where
  "answered = \<lparr>met = Response 200 (encode_version sample_version) None, took = 1000000, overslept = 0\<rparr>"

lemma version_answered: "version (met answered) = Inr sample_version"
  using version_encoded [of 200 sample_version "[]" None] valid_version_ascii [of sample_version]
  by (simp add: answered_def version_values_def sample_version_def ascii_def)

definition sample_world :: "nat \<Rightarrow> nat \<Rightarrow> attempt" where
  "sample_world k i = (if i < k then refused else answered)"

theorem Version_first_success_witness:
  "Version (sample_world 1) (2 * second) 0 = (Inr sample_version, 102000000, 2) \<and>
   version (met (sample_world 1 1)) = Inr sample_version \<and>
   (\<exists>e. version (met (sample_world 1 0)) = Inl e)"
proof -
  have "Version_loop (sample_world 1) (2 * second) 0 0 =
      Version_loop (sample_world 1) (2 * second) 1 101000000"
    by (subst Version_loop.simps) (simp add: sample_world_def refused_def version_def)
  also have "\<dots> = (Inr sample_version, 102000000, 2)"
    by (subst Version_loop.simps) (simp add: sample_world_def version_answered, simp add: answered_def)
  finally have v: "Version (sample_world 1) (2 * second) 0 = (Inr sample_version, 102000000, 2)"
    by (simp add: Version_def)
  show ?thesis using v Version_first_success [OF v] by simp
qed

text \<open>
  C31.  What chromium reports is what the probe returns.  Any version information, encoded as JSON and
  with anything after it in the body, is decoded to itself but for bytes that are no
  UTF-8, each replaced by U+FFFD, whatever the status of the response; and what the program
  has decoded it encodes and decodes without any loss.
\<close>

theorem version_roundtrip:
  "version (Response st (encode_version v @ t) err) = Inr (valid_version v) \<and>
   version (Response st (encode_version (valid_version v) @ t) err) = Inr (valid_version v)"
  by (simp add: version_encoded) (simp add: valid_version_def sanitize_idem)

text \<open>
  C32.  A response that says nothing is a success.  The probe takes any response whose body is a JSON object
  without the expected members, or \<open>null\<close>, even one with an error status, for chromium's: it
  returns an empty version, with no debugger URL; only a body that does not decode is a failure,
  an empty one for instance.
\<close>

theorem version_empty_object:
  "version (Response st (enc_object [] @ t) err) = Inr no_version \<and>
   version (Response st (''null'' @ newline # t) err) = Inr no_version \<and>
   (\<exists>e. version (Response st [] err) = Inl e)"
proof -
  have "jvalue 0 (enc_object [] @ t) = Got (JObj []) t" for t
    by (rule object_reads) (simp_all add: maxNestingDepth_def)
  then have "read_json (enc_object [] @ t) err = Inr (JObj [])"
    by (rule read_json_reads) (simp add: jscalar_def)
  moreover have "read_json (''null'' @ newline # t) err = Inr JNull"
    by (simp add: read_json_def jvalue.simps skip_space_def isSpace_def split: option.split)
  moreover have "\<exists>e. read_json [] err = Inl e"
    by (simp add: read_json_def jvalue.simps split: option.split)
  ultimately show ?thesis by (auto simp: version_def decode_version_def)
qed

lemma Version_time:
  assumes "Version world deadline now = (r, t, n)" "now < deadline"
  shows "0 < n \<and> slept (n - 1) < deadline - now \<and>
    t \<le> deadline + int (took (world (n - 1))) + backoff (n - 1) + int (overslept (world (n - 1)))"
  using loop_attempts [OF assms(1) [unfolded Version_def] assms(2)]
    loop_time [OF assms(1) [unfolded Version_def], of now] by simp

text \<open>
  How long the probe can last.  With a deadline \<open>D\<close> after the start, attempts that take at
  most \<open>m\<close> each and exact pauses, \<open>Version\<close> returns at most \<open>m + 100 ms + D/2\<close> after the deadline:
  the last pause, which the context does not cut short, is at most 100 ms plus half of the
  pauses before it.
\<close>

theorem Version_overrun:
  assumes "Version world (now + D) now = (r, t, n)" and "0 < D"
    and "\<And>j. int (took (world j)) \<le> m" and "\<And>j. overslept (world j) = 0"
  shows "2 * (t - (now + D)) \<le> 2 * m + 200 * millisecond + D"
  using Version_time [OF assms(1)] assms(2) assms(3,4) [of "n - 1"] backoff_slept [of "n - 1"] by auto

theorem Version_overrun_witness:
  "\<exists>r t n. Version (sample_world 9) (0 + 2 * second) 0 = (r, t, n) \<and>
     2 * (t - (0 + 2 * second)) \<le> 2 * version_timeout + 200 * millisecond + 2 * second"
proof -
  obtain r t n where v: "Version (sample_world 9) (0 + 2 * second) 0 = (r, t, n)"
    by (cases "Version (sample_world 9) (0 + 2 * second) 0")
  have "2 * (t - (0 + 2 * second)) \<le> 2 * version_timeout + 200 * millisecond + 2 * second"
    by (rule Version_overrun [OF v])
      (simp_all add: sample_world_def refused_def answered_def version_timeout_def)
  with v show ?thesis by blast
qed

text \<open>A probe of two seconds or less, whatever its attempts meet and however long they take.\<close>

lemma Version_two_second_probe:
  assumes "Version world deadline now = (r, t, n)" and "deadline \<le> now + 2 * second"
  shows "n \<le> 6 \<and> t - now \<le> 2759375000 + int (took (world (n - 1))) + int (overslept (world (n - 1)))"
proof (cases "deadline \<le> now")
  case True
  then show ?thesis using assms(1) by (simp add: Version_def loop_expired)
next
  case False
  then have time: "slept (n - 1) < deadline - now"
    "t \<le> deadline + int (took (world (n - 1))) + backoff (n - 1) + int (overslept (world (n - 1)))"
    using Version_time [OF assms(1)] by simp_all
  have six: "2 * second < slept 6" by code_simp
  have n: "n \<le> 6"
  proof (rule ccontr)
    assume "\<not> n \<le> 6"
    then have "slept 6 \<le> slept (n - 1)" by (intro slept_mono) simp
    with time(1) six assms(2) show False by linarith
  qed
  then have "n \<in> {0, 1, 2, 3, 4, 5, 6}" by auto
  moreover have "\<forall>k \<in> {0, 1, 2, 3, 4, 5}. backoff k \<le> 759375000" by code_simp
  ultimately have "backoff (n - 1) \<le> 759375000" by auto
  then show ?thesis using n time assms(2) by linarith
qed

lemma Version_bounds:
  assumes "Version world deadline now = (r, t, n)" and "deadline \<le> now + 2 * second"
    and "\<And>j. int (took (world j)) \<le> version_timeout" and "\<And>j. overslept (world j) = 0"
  shows "n \<le> 6 \<and> t - now \<le> 3259375000"
  using Version_two_second_probe [OF assms(1,2)] assms(3,4) [of "n - 1"] by (simp add: version_timeout_def)

text \<open>
  C30.  A probe with a deadline of two seconds or less, as a creation's, makes at most six requests, whatever chromium
  does, answers or not, and however late the system is.  With each request under its 500 ms
  context it returns within 3.26 seconds, plus what the last request was late to notice the end
  of its context and what the last pause lasted longer than asked; lateness in earlier rounds does
  not add up.
\<close>

theorem Version_two_seconds:
  assumes "Version (\<lambda>j. with_timeout (late j) (world j)) deadline now = (r, t, n)" and "deadline \<le> now + 2 * second"
  shows "n \<le> 6 \<and> t - now \<le> 3259375000 + int (late (n - 1)) + int (overslept (world (n - 1)))"
  using Version_two_second_probe [OF assms] with_timeout_took [of "late (n - 1)" "world (n - 1)"] by simp

text \<open>A browser that accepts connections and never answers, on a system that is 1 ms late.\<close>

definition hanging :: attempt where
  "hanging = \<lparr>met = Response 200 [] None, took = 3600000000000, overslept = 1000000\<rparr>"

theorem Version_two_seconds_witness:
  "\<exists>e t n. Version (\<lambda>j. with_timeout 1000000 hanging) (0 + 2 * second) 0 = (Inl e, t, n) \<and>
     2 * second \<le> t \<and> n \<le> 6 \<and> t - 0 \<le> 3259375000 + 1000000 + 1000000"
proof -
  obtain r t n where v: "Version (\<lambda>j. with_timeout 1000000 hanging) (0 + 2 * second) 0 = (r, t, n)"
    by (cases "Version (\<lambda>j. with_timeout 1000000 hanging) (0 + 2 * second) 0")
  have "met (with_timeout 1000000 hanging) = NoResponse DeadlineExceeded"
    by (simp add: with_timeout_def hanging_def version_timeout_def)
  then have f: "\<exists>e. version (met (with_timeout 1000000 hanging)) = Inl e" by (simp add: version_def)
  have "\<exists>e. r = Inl e \<and> 0 + 2 * second \<le> t"
    using loop_result [OF v [unfolded Version_def]] f by (cases r) auto
  moreover have "n \<le> 6 \<and> t - 0 \<le> 3259375000 + 1000000 + 1000000"
    using Version_two_seconds [OF v order_refl] by (simp add: hanging_def)
  ultimately show ?thesis using v by auto
qed

end
