(* ===== verification/Metrics.thy ===== *)
theory Metrics
  imports Prelude "HOL-Library.Word"
begin

text \<open>
  Model of \<open>internal/metrics/metrics.go\<close>: the label values, the collectors the program creates
  and registers, and the calls it makes on them.  The \<open>client_golang\<close> library is not part of
  the repository: the model keeps the sequence of calls made on the collectors, and the
  registry is a parameter.  The readings \<open>active_gauge\<close>, \<open>created_total\<close>, \<open>terminated_total\<close>
  and \<open>oom_kills_total\<close> say what the documented meaning of \<open>Set\<close>, \<open>Inc\<close> and \<open>Add\<close> makes of
  such a sequence.  The amounts handed to \<open>Observe\<close> and \<open>Add\<close> for bytes and kills are the \<open>float64\<close>
  values the program computes, all of them integers; a duration is kept in nanoseconds.
\<close>

section \<open>Label values\<close>

definition ExecutionStateFinished :: string where "ExecutionStateFinished = ''finished''"
definition ExecutionStateFailed :: string where "ExecutionStateFailed = ''failed''"
definition ResourceRSS :: string where "ResourceRSS = ''rss''"
definition TerminationReasonDeleted :: string where "TerminationReasonDeleted = ''deleted''"
definition TerminationReasonTimeout :: string where "TerminationReasonTimeout = ''timeout''"
definition TerminationReasonReplaced :: string where "TerminationReasonReplaced = ''replaced''"

lemmas reason_defs =
  TerminationReasonDeleted_def TerminationReasonTimeout_def TerminationReasonReplaced_def

section \<open>Calls on the supervisor's collectors\<close>

datatype metric_op =
    SessionDuration_Observe duration
  | ChromiumExecutions_Inc string
  | ChromiumResources_Observe string int
  | SessionActive_Set nat
  | SessionsCreated_Inc
  | SessionsTerminated_Inc string
  | OOMKills_Add nat

text \<open>A sequence of calls, the most recent first.\<close>

type_synonym metric_log = "metric_op list"

fun active_gauge :: "metric_log \<Rightarrow> nat" where
  "active_gauge [] = 0"
| "active_gauge (SessionActive_Set v # l) = v"
| "active_gauge (_ # l) = active_gauge l"

fun created_total :: "metric_log \<Rightarrow> nat" where
  "created_total [] = 0"
| "created_total (SessionsCreated_Inc # l) = Suc (created_total l)"
| "created_total (_ # l) = created_total l"

fun terminated_total :: "string \<Rightarrow> metric_log \<Rightarrow> nat" where
  "terminated_total r [] = 0"
| "terminated_total r (SessionsTerminated_Inc r' # l) =
     (if r' = r then Suc (terminated_total r l) else terminated_total r l)"
| "terminated_total r (_ # l) = terminated_total r l"

fun all_terminated :: "metric_log \<Rightarrow> nat" where
  "all_terminated [] = 0"
| "all_terminated (SessionsTerminated_Inc r # l) = Suc (all_terminated l)"
| "all_terminated (_ # l) = all_terminated l"

fun oom_kills_total :: "metric_log \<Rightarrow> nat" where
  "oom_kills_total [] = 0"
| "oom_kills_total (OOMKills_Add d # l) = d + oom_kills_total l"
| "oom_kills_total (_ # l) = oom_kills_total l"

text \<open>Calls that are not about the session table.\<close>

fun table_op :: "metric_op \<Rightarrow> bool" where
  "table_op (SessionActive_Set _) = True"
| "table_op SessionsCreated_Inc = True"
| "table_op (SessionsTerminated_Inc _) = True"
| "table_op _ = False"

lemma readings_other [simp]:
  assumes "\<not> table_op p"
  shows "active_gauge (p # l) = active_gauge l" "created_total (p # l) = created_total l"
    "terminated_total r (p # l) = terminated_total r l" "all_terminated (p # l) = all_terminated l"
  using assms by (cases p; simp)+

lemma readings_append_other:
  assumes "\<forall>p \<in> set ps. \<not> table_op p"
  shows "active_gauge (ps @ l) = active_gauge l" "created_total (ps @ l) = created_total l"
    "terminated_total r (ps @ l) = terminated_total r l" "all_terminated (ps @ l) = all_terminated l"
  using assms by (induction ps) auto

section \<open>Collectors\<close>

datatype metric_kind = Counter | CounterVec | Gauge | Histogram | HistogramVec

text \<open>\<open>start_value\<close> is what a gauge or counter is set to before it is registered.\<close>

record collector =
  Namespace :: string
  Subsystem :: string
  Name :: string
  kind :: metric_kind
  label_names :: "string list"
  const_labels :: "(string \<times> string) list"
  start_value :: nat

definition metricNs :: string where "metricNs = ''sm''"
definition metricSubsystemCrocochrome :: string where "metricSubsystemCrocochrome = ''crocochrome''"

definition croco_metric :: "string \<Rightarrow> metric_kind \<Rightarrow> string list \<Rightarrow> collector" where
  "croco_metric name k ls =
     \<lparr>Namespace = metricNs, Subsystem = metricSubsystemCrocochrome, Name = name,
      kind = k, label_names = ls, const_labels = [], start_value = 0\<rparr>"

text \<open>The collectors of \<open>metrics.Supervisor\<close>, in the order they are registered.\<close>

definition Supervisor_collectors :: "collector list" where
  "Supervisor_collectors =
     [croco_metric ''session_duration_seconds'' Histogram [],
      croco_metric ''chromium_executions_total'' CounterVec [''state''],
      croco_metric ''chromium_resource_usage'' HistogramVec [''resource''],
      croco_metric ''session_active'' Gauge [],
      croco_metric ''sessions_created_total'' Counter [],
      croco_metric ''sessions_terminated_total'' CounterVec [''reason''],
      croco_metric ''chromium_oom_kills_total'' Counter []]"

definition InstrumentHTTP_collectors :: "collector list" where
  "InstrumentHTTP_collectors =
     [croco_metric ''requests_total'' CounterVec [''code'', ''method'', ''route''],
      croco_metric ''request_duration_seconds'' HistogramVec [''code'', ''method'', ''route'']]"

text \<open>
  The gauge with the program's version, its commit and the time of its build as labels, always one; the
  library's own build information collector is a parameter.
\<close>

definition AddVersionMetrics_collectors :: "string \<Rightarrow> string \<Rightarrow> string \<Rightarrow> collector \<Rightarrow> collector list" where
  "AddVersionMetrics_collectors short commit buildstamp buildInfoCollector =
     [\<lparr>Namespace = ''sm'', Subsystem = ''crocochrome'', Name = ''info'', kind = Gauge, label_names = [],
       const_labels = [(''version'', short), (''commit'', commit), (''timestamp'', buildstamp)],
       start_value = 1\<rparr>,
      buildInfoCollector]"

text \<open>\<open>MustRegister\<close> for each collector in turn; it panics when \<open>Register\<close> fails.\<close>

fun MustRegister_all :: "('r \<Rightarrow> collector \<Rightarrow> 'r option) \<Rightarrow> collector list \<Rightarrow> 'r \<Rightarrow> 'r outcome" where
  "MustRegister_all register [] reg = Return reg"
| "MustRegister_all register (c # cs) reg =
     (case register reg c of
        None \<Rightarrow> Panic ''duplicate metrics collector registration attempted''
      | Some reg' \<Rightarrow> MustRegister_all register cs reg')"

definition full_name :: "collector \<Rightarrow> string \<times> string \<times> string" where
  "full_name c = (Namespace c, Subsystem c, Name c)"

lemma MustRegister_all_distinct:
  assumes "\<And>reg c. full_name c \<notin> names reg \<Longrightarrow>
      \<exists>reg'. register reg c = Some reg' \<and> names reg' = insert (full_name c) (names reg)"
    and "distinct (map full_name cs)" "set (map full_name cs) \<inter> names reg = {}"
  shows "\<exists>reg'. MustRegister_all register cs reg = Return reg'"
  using assms(2,3)
proof (induction cs arbitrary: reg)
  case (Cons c cs)
  then obtain reg' where "register reg c = Some reg'"
    "names reg' = insert (full_name c) (names reg)" using assms(1) [of c reg] by auto
  with Cons show ?case by auto
qed simp

text \<open>
  Start-up registers no metric twice.  With a registry that accepts a collector whose name
  is new (what \<open>Registerer.Register\<close> documents), registering the version, supervisor and
  HTTP metrics on an empty registry does not panic, provided the library's own build
  information metric is outside the program's namespace.
\<close>

theorem all_collectors_register:
  assumes "\<And>reg c. full_name c \<notin> names reg \<Longrightarrow>
      \<exists>reg'. register reg c = Some reg' \<and> names reg' = insert (full_name c) (names reg)"
    and "names reg = {}" and "Namespace b \<noteq> metricNs"
  shows "\<exists>reg'. MustRegister_all register
     (AddVersionMetrics_collectors short commit buildstamp b @ Supervisor_collectors @ InstrumentHTTP_collectors) reg = Return reg'"
  by (rule MustRegister_all_distinct [of names, OF assms(1)])
    (use assms(2,3) in \<open>simp_all add: full_name_def AddVersionMetrics_collectors_def
       Supervisor_collectors_def InstrumentHTTP_collectors_def croco_metric_def metricNs_def
       metricSubsystemCrocochrome_def\<close>)

definition list_register :: "collector list \<Rightarrow> collector \<Rightarrow> collector list option" where
  "list_register reg c = (if full_name c \<in> full_name ` set reg then None else Some (c # reg))"

definition go_build_info :: collector where
  "go_build_info = \<lparr>Namespace = [], Subsystem = [], Name = ''go_build_info'', kind = Gauge,
     label_names = [], const_labels = [], start_value = 1\<rparr>"

theorem all_collectors_register_witness:
  "\<exists>reg'. MustRegister_all list_register
     (AddVersionMetrics_collectors ''v1'' ''abc'' ''0'' go_build_info @ Supervisor_collectors @ InstrumentHTTP_collectors) []
     = Return reg'"
  by (rule all_collectors_register [where names = "\<lambda>reg. full_name ` set reg"])
    (auto simp: list_register_def go_build_info_def metricNs_def)

end
