(* ===== verification/Supervisor_State.thy ===== *)
theory Supervisor_State
  imports Proc Chromium_Client Metrics
begin

text \<open>
  The data of \<open>internal/crocochrome/crocochrome.go\<close>: options, check and session information,
  the supervisor itself, and the run-time objects its goroutines share: contexts with their
  deadline and \<open>AfterFunc\<close>, the goroutines that run \<open>launch\<close>, the \<open>WaitGroup\<close>, the mutex, the
  calls made on metrics, logs and the operating system.
\<close>

section \<open>Logging\<close>

datatype log_level = Debug | Info | Warn | Error

text \<open>The value of a log attribute; a string of type \<open>any\<close> is a string value.\<close>

datatype attr_value = VStr string | VInt int | VUint "64 word" | VErr go_error | VAny json

definition attr_of :: "json \<Rightarrow> attr_value" where
  "attr_of v = (case v of JStr s \<Rightarrow> VStr s | _ \<Rightarrow> VAny v)"

type_synonym attrs = "(string \<times> attr_value) list"

text \<open>A logger is the list of attributes \<open>With\<close> has added; an entry is what it wrote.\<close>

record log_entry =
  le_level :: log_level
  le_msg :: string
  le_attrs :: attrs

section \<open>Options\<close>

record Options =
  ChromiumPath :: string
  ChromiumPort :: string
  SessionTimeout_opt :: duration
  UserGroup :: int
  TempDir :: string
  Registry :: "nat option"
  ExtraUATerms :: string
  CgroupMemoryEventsPath :: string
  EnableProcessMetrics :: bool
  ProcFSRoot :: string

definition defaultChromiumPort :: string where "defaultChromiumPort = ''5222''"
definition defaultSessionTimeout :: duration where "defaultSessionTimeout = 5 * minute"
definition allowedLabels :: "string list" where "allowedLabels = [''regionID'', ''tenantID'', ''id'']"

text \<open>
  \<open>withDefaults\<close>: the fields in the order of the source.  The system's temporary directory and
  a fresh registry are parameters.
\<close>

definition withDefaults :: "filesystem \<Rightarrow> procfs \<Rightarrow> string \<Rightarrow> nat \<Rightarrow> Options \<Rightarrow> Options" where
  "withDefaults fs pf osTempDir newRegistry o0 =
     (let o1 = (if ChromiumPort o0 = [] then o0\<lparr>ChromiumPort := defaultChromiumPort\<rparr> else o0);
          o2 = (if SessionTimeout_opt o1 = 0 then o1\<lparr>SessionTimeout_opt := defaultSessionTimeout\<rparr> else o1);
          o3 = (if TempDir o2 = [] then o2\<lparr>TempDir := osTempDir\<rparr> else o2);
          o4 = (if Registry o3 = None then o3\<lparr>Registry := Some newRegistry\<rparr> else o3);
          o5 = (if ProcFSRoot o4 = [] then o4\<lparr>ProcFSRoot := ''/proc''\<rparr> else o4)
      in (if CgroupMemoryEventsPath o5 = []
          then o5\<lparr>CgroupMemoryEventsPath := detectCgroupMemoryEventsPath fs pf (ProcFSRoot o5)\<rparr>
          else o5))"

section \<open>Sessions\<close>

record CheckInfo =
  CheckType :: string
  Metadata :: "(string, json) gomap"

record SessionInfo =
  ID :: string
  ChromiumVersion :: VersionInfo

type_synonym ctx_id = nat

record session =
  info :: SessionInfo
  cancel :: ctx_id
  logger :: attrs

section \<open>Run-time objects\<close>

text \<open>
  A context: when it was made, its deadline, if any, the error once it is done, the session id
  and the logger its \<open>AfterFunc\<close> captured, if one is registered, and whether that function has
  run.
\<close>

record ctx =
  ctx_start :: instant
  deadline :: "instant option"
  ctx_err :: "go_error option"
  after_func :: "(string \<times> attrs) option"
  after_ran :: bool

record command =
  cmd_path :: string
  cmd_args :: "string list"
  cmd_env :: "string list"
  cmd_cred :: "(32 word \<times> 32 word) option"

text \<open>Where a goroutine that calls \<open>launch\<close> is: not started, in \<open>cmd.Run\<close>, or ended.\<close>

datatype phase = Spawned | Running command string instant | Ended

record launch =
  l_ctx :: ctx_id
  l_logger :: attrs
  l_oomBefore :: "64 word"
  l_oomBeforeErr :: "go_error option"
  l_tracked :: bool
  l_phase :: phase

datatype os_call =
    MkdirAll string
  | MkdirTemp string
  | Chown string int
  | RemoveAll string

text \<open>A call of \<open>create\<close> that holds the mutex while it probes chromium.\<close>

record pending =
  p_id :: string
  p_ctx :: ctx_id
  p_logger :: attrs
  p_start :: instant

record supervisor =
  opts :: Options
  sup_logger :: attrs
  sessions :: "(string, session) gomap"
  metrics :: metric_log
  userAgent :: string
  wg :: int
  draining :: bool
  mtx :: "pending option"
  ctxs :: "ctx list"
  launches :: "launch list"
  logs :: "log_entry list"
  os_calls :: "os_call list"
  crashed :: bool
  now :: instant

definition New :: "filesystem \<Rightarrow> procfs \<Rightarrow> string \<Rightarrow> nat \<Rightarrow> attrs \<Rightarrow> Options \<Rightarrow> instant \<Rightarrow> supervisor" where
  "New fs pf osTempDir newRegistry lg o0 t =
     \<lparr>opts = withDefaults fs pf osTempDir newRegistry o0, sup_logger = lg, sessions = [],
      metrics = [], userAgent = [], wg = 0, draining = False, mtx = None, ctxs = [],
      launches = [], logs = [], os_calls = [], crashed = False, now = t\<rparr>"

definition log_at :: "log_level \<Rightarrow> attrs \<Rightarrow> string \<Rightarrow> attrs \<Rightarrow> supervisor \<Rightarrow> supervisor" where
  "log_at lvl lg msg as s = s\<lparr>logs := \<lparr>le_level = lvl, le_msg = msg, le_attrs = lg @ as\<rparr> # logs s\<rparr>"

definition observe :: "metric_op \<Rightarrow> supervisor \<Rightarrow> supervisor" where
  "observe p s = s\<lparr>metrics := p # metrics s\<rparr>"

text \<open>Cancelling a context that is done has no effect.\<close>

definition cancelled :: "ctx \<Rightarrow> ctx" where
  "cancelled c = (if ctx_err c = None then c\<lparr>ctx_err := Some Canceled\<rparr> else c)"

definition cancel_ctx :: "ctx_id \<Rightarrow> supervisor \<Rightarrow> supervisor" where
  "cancel_ctx i s = (if i < length (ctxs s) then s\<lparr>ctxs := (ctxs s)[i := cancelled (ctxs s ! i)]\<rparr> else s)"

lemma log_at_frame [simp]:
  "opts (log_at lvl lg msg as s) = opts s" "sup_logger (log_at lvl lg msg as s) = sup_logger s"
  "sessions (log_at lvl lg msg as s) = sessions s" "metrics (log_at lvl lg msg as s) = metrics s"
  "userAgent (log_at lvl lg msg as s) = userAgent s" "wg (log_at lvl lg msg as s) = wg s"
  "draining (log_at lvl lg msg as s) = draining s" "mtx (log_at lvl lg msg as s) = mtx s"
  "ctxs (log_at lvl lg msg as s) = ctxs s" "launches (log_at lvl lg msg as s) = launches s"
  "os_calls (log_at lvl lg msg as s) = os_calls s" "crashed (log_at lvl lg msg as s) = crashed s"
  "now (log_at lvl lg msg as s) = now s"
  by (simp_all add: log_at_def)

lemma observe_frame [simp]:
  "opts (observe p s) = opts s" "sup_logger (observe p s) = sup_logger s"
  "sessions (observe p s) = sessions s" "userAgent (observe p s) = userAgent s"
  "wg (observe p s) = wg s" "draining (observe p s) = draining s" "mtx (observe p s) = mtx s"
  "ctxs (observe p s) = ctxs s" "launches (observe p s) = launches s" "logs (observe p s) = logs s"
  "os_calls (observe p s) = os_calls s" "crashed (observe p s) = crashed s"
  "now (observe p s) = now s"
  by (simp_all add: observe_def)

lemma observe_metrics [simp]: "metrics (observe p s) = p # metrics s"
  by (simp add: observe_def)

lemma cancel_ctx_frame [simp]:
  "opts (cancel_ctx i s) = opts s" "sup_logger (cancel_ctx i s) = sup_logger s"
  "sessions (cancel_ctx i s) = sessions s" "metrics (cancel_ctx i s) = metrics s"
  "userAgent (cancel_ctx i s) = userAgent s" "wg (cancel_ctx i s) = wg s"
  "draining (cancel_ctx i s) = draining s" "mtx (cancel_ctx i s) = mtx s"
  "launches (cancel_ctx i s) = launches s" "logs (cancel_ctx i s) = logs s"
  "os_calls (cancel_ctx i s) = os_calls s" "crashed (cancel_ctx i s) = crashed s"
  "now (cancel_ctx i s) = now s"
  by (simp_all add: cancel_ctx_def)

lemma cancel_ctx_ctxs:
  "ctxs (cancel_ctx i s) = (if i < length (ctxs s) then (ctxs s)[i := cancelled (ctxs s ! i)] else ctxs s)"
  by (simp add: cancel_ctx_def)

lemma length_cancel_ctx [simp]: "length (ctxs (cancel_ctx i s)) = length (ctxs s)"
  by (simp add: cancel_ctx_ctxs)

lemma cancelled_frame [simp]:
  "ctx_start (cancelled c) = ctx_start c" "deadline (cancelled c) = deadline c"
  "after_func (cancelled c) = after_func c" "after_ran (cancelled c) = after_ran c"
  "ctx_err (cancelled c) \<noteq> None"
  by (simp_all add: cancelled_def)

lemma default_stage:
  "(if ChromiumPort r = [] then r\<lparr>ChromiumPort := v\<rparr> else r) =
     r\<lparr>ChromiumPort := if ChromiumPort r = [] then v else ChromiumPort r\<rparr>"
  "(if SessionTimeout_opt r = 0 then r\<lparr>SessionTimeout_opt := d\<rparr> else r) =
     r\<lparr>SessionTimeout_opt := if SessionTimeout_opt r = 0 then d else SessionTimeout_opt r\<rparr>"
  "(if TempDir r = [] then r\<lparr>TempDir := v\<rparr> else r) =
     r\<lparr>TempDir := if TempDir r = [] then v else TempDir r\<rparr>"
  "(if Registry r = None then r\<lparr>Registry := x\<rparr> else r) =
     r\<lparr>Registry := if Registry r = None then x else Registry r\<rparr>"
  "(if ProcFSRoot r = [] then r\<lparr>ProcFSRoot := v\<rparr> else r) =
     r\<lparr>ProcFSRoot := if ProcFSRoot r = [] then v else ProcFSRoot r\<rparr>"
  "(if CgroupMemoryEventsPath r = [] then r\<lparr>CgroupMemoryEventsPath := v\<rparr> else r) =
     r\<lparr>CgroupMemoryEventsPath := if CgroupMemoryEventsPath r = [] then v else CgroupMemoryEventsPath r\<rparr>"
  by simp_all

lemma withDefaults_eq:
  "withDefaults fs pf tmp reg o0 =
     (let root = (if ProcFSRoot o0 = [] then ''/proc'' else ProcFSRoot o0)
      in o0\<lparr>ChromiumPort := if ChromiumPort o0 = [] then defaultChromiumPort else ChromiumPort o0,
            SessionTimeout_opt := if SessionTimeout_opt o0 = 0 then defaultSessionTimeout else SessionTimeout_opt o0,
            TempDir := if TempDir o0 = [] then tmp else TempDir o0,
            Registry := if Registry o0 = None then Some reg else Registry o0,
            ProcFSRoot := root,
            CgroupMemoryEventsPath := if CgroupMemoryEventsPath o0 = []
              then detectCgroupMemoryEventsPath fs pf root else CgroupMemoryEventsPath o0\<rparr>)"
  unfolding withDefaults_def default_stage Let_def
  by (simp cong: if_cong split del: if_split)

text \<open>
  The defaults: every option left at its zero value gets its documented default, every
  other option is kept, and applying the defaults again changes nothing unless no cgroup
  file was found.
\<close>

theorem withDefaults_spec:
  assumes "r = withDefaults fs pf tmp reg o0"
  shows "ChromiumPort r = (if ChromiumPort o0 = [] then ''5222'' else ChromiumPort o0) \<and>
     SessionTimeout_opt r = (if SessionTimeout_opt o0 = 0 then 300 * second else SessionTimeout_opt o0) \<and>
     TempDir r = (if TempDir o0 = [] then tmp else TempDir o0) \<and>
     ProcFSRoot r = (if ProcFSRoot o0 = [] then ''/proc'' else ProcFSRoot o0) \<and>
     CgroupMemoryEventsPath r =
       (if CgroupMemoryEventsPath o0 = [] then detectCgroupMemoryEventsPath fs pf (ProcFSRoot r)
        else CgroupMemoryEventsPath o0) \<and>
     ChromiumPath r = ChromiumPath o0 \<and> UserGroup r = UserGroup o0 \<and>
     ExtraUATerms r = ExtraUATerms o0 \<and> EnableProcessMetrics r = EnableProcessMetrics o0 \<and>
     (CgroupMemoryEventsPath r \<noteq> [] \<and> tmp \<noteq> [] \<longrightarrow> withDefaults fs pf tmp reg' r = r)"
proof -
  have stable: "withDefaults fs pf tmp reg' r = r"
    if "ChromiumPort r \<noteq> []" "SessionTimeout_opt r \<noteq> 0" "TempDir r \<noteq> []" "Registry r \<noteq> None"
      "ProcFSRoot r \<noteq> []" "CgroupMemoryEventsPath r \<noteq> []"
    using that by (simp add: withDefaults_def Let_def)
  have "ChromiumPort r \<noteq> []" "SessionTimeout_opt r \<noteq> 0" "Registry r \<noteq> None" "ProcFSRoot r \<noteq> []"
    by (simp_all add: assms withDefaults_eq Let_def defaultChromiumPort_def defaultSessionTimeout_def)
  moreover have "tmp \<noteq> [] \<Longrightarrow> TempDir r \<noteq> []" by (simp add: assms withDefaults_eq Let_def)
  ultimately have "CgroupMemoryEventsPath r \<noteq> [] \<and> tmp \<noteq> [] \<longrightarrow> withDefaults fs pf tmp reg' r = r"
    using stable by blast
  then show ?thesis
    by (simp add: assms withDefaults_eq Let_def defaultChromiumPort_def defaultSessionTimeout_def
        cong: if_cong split del: if_split)
qed

definition sample_options :: Options where
  "sample_options =
     \<lparr>ChromiumPath = ''chromium'', ChromiumPort = [], SessionTimeout_opt = 0, UserGroup = 65534,
      TempDir = ''/chromium-tmp'', Registry = Some 1, ExtraUATerms = ''GrafanaSyntheticMonitoring'',
      CgroupMemoryEventsPath = ''/sys/fs/cgroup/memory.events'', EnableProcessMetrics = False,
      ProcFSRoot = []\<rparr>"

theorem withDefaults_spec_witness:
  "SessionTimeout_opt (withDefaults (sample_fs ''/f'' []) sample_procfs ''/tmp'' 7 sample_options) = 300 * second \<and>
   withDefaults (sample_fs ''/f'' []) sample_procfs ''/tmp'' 8
     (withDefaults (sample_fs ''/f'' []) sample_procfs ''/tmp'' 7 sample_options) =
   withDefaults (sample_fs ''/f'' []) sample_procfs ''/tmp'' 7 sample_options"
  using withDefaults_spec [OF refl, of "sample_fs ''/f'' []" sample_procfs "''/tmp''" 7 sample_options 8]
  by (simp add: sample_options_def)

end
