(* ===== verification/Launch.thy ===== *)
theory Launch
  imports Supervisor_State
begin

text \<open>
  Model of the part of \<open>internal/crocochrome/crocochrome.go\<close> that runs chromium: \<open>mkdirTemp\<close> and
  \<open>launch\<close>.  A goroutine that calls \<open>launch\<close> takes two steps: up to
  \<open>cmd.Run\<close> (\<open>launch_begin\<close>), and from its return to the end of the goroutine
  (\<open>launch_finish\<close>).  What the operating system answers is a parameter of each step.
\<close>

section \<open>The temporary directory\<close>

record mkdir_env =
  stat_err :: "go_error option"
  mkdirall_err :: "go_error option"
  mkdirtemp_res :: "go_error + string"
  chown_err :: "go_error option"

definition os_done :: "os_call \<Rightarrow> supervisor \<Rightarrow> supervisor" where
  "os_done c s = s\<lparr>os_calls := c # os_calls s\<rparr>"

text \<open>\<open>mkdirTemp\<close> after \<open>TempDir\<close> is known to be there.\<close>

definition mkdir_in :: "mkdir_env \<Rightarrow> supervisor \<Rightarrow> (go_error + string) \<times> supervisor" where
  "mkdir_in e s =
     (case mkdirtemp_res e of
        Inl err \<Rightarrow> (Inl err, s)
      | Inr tmpDir \<Rightarrow>
          (let s1 = os_done (MkdirTemp tmpDir) s
           in if UserGroup (opts s) = 0 then (Inr tmpDir, s1)
              else (case chown_err e of
                      Some err \<Rightarrow> (Inl (Errorf ''chowning temporary dir: %w'' [] (Some err)), s1)
                    | None \<Rightarrow> (Inr tmpDir, os_done (Chown tmpDir (UserGroup (opts s))) s1))))"

definition mkdirTemp :: "mkdir_env \<Rightarrow> supervisor \<Rightarrow> (go_error + string) \<times> supervisor" where
  "mkdirTemp e s =
     (if (case stat_err e of None \<Rightarrow> False | Some err \<Rightarrow> errors_Is err ErrNotExist)
      then (let s1 = log_at Warn (sup_logger s)
                       ''Specified TempDir does not exist, is it mounted? Falling back to creating it.''
                       [(''TempDir'', VStr (TempDir (opts s)))] s
            in (case mkdirall_err e of
                  Some err \<Rightarrow>
                    (Inl (Errorf ''tmpdir does not exist and couldn't be created: %w'' [] (Some err)), s1)
                | None \<Rightarrow> mkdir_in e (os_done (MkdirAll (TempDir (opts s))) s1)))
      else mkdir_in e s)"

section \<open>The command line\<close>

definition launch_args :: "string \<Rightarrow> string \<Rightarrow> string list" where
  "launch_args port ua =
     [''--headless'',
      ''--remote-debugging-address=0.0.0.0'',
      ''--remote-debugging-port='' @ port,
      ''--no-sandbox'',
      ''--disable-dev-shm-usage'',
      ''--disable-breakpad'', ''--disable-crash-reporter'',
      ''--disable-3d-apis'',
      ''--disable-audio-input'', ''--disable-audio-output'',
      ''--disable-default-apps'',
      ''--disable-extensions'',
      ''--disable-file-system'',
      ''--disable-first-run-ui'',
      ''--disable-notifications'',
      ''--disable-smooth-scrolling'',
      ''--disable-features=WebUIOmniboxPopup,WebUIOmniboxAimPopup,AvoidCorsURLLoaderRestartOnRedirect'']
     @ (if ua \<noteq> [] then [''--user-agent='' @ ua] else [])"

text \<open>Go's \<open>uint32(x)\<close> keeps the low 32 bits.\<close>

definition launch_cmd :: "Options \<Rightarrow> string \<Rightarrow> string \<Rightarrow> command" where
  "launch_cmd opt ua tmpDir =
     \<lparr>cmd_path = ChromiumPath opt,
      cmd_args = launch_args (ChromiumPort opt) ua,
      cmd_env = [''TMPDIR='' @ tmpDir],
      cmd_cred = (if UserGroup opt \<noteq> 0
                  then Some (word_of_int (UserGroup opt), word_of_int (UserGroup opt)) else None)\<rparr>"

section \<open>The goroutine\<close>

definition set_phase :: "nat \<Rightarrow> phase \<Rightarrow> supervisor \<Rightarrow> supervisor" where
  "set_phase i ph s = s\<lparr>launches := (launches s)[i := (launches s ! i)\<lparr>l_phase := ph\<rparr>]\<rparr>"

text \<open>
  What the goroutine does when \<open>launch\<close> has returned: the goroutine of a session logs the
  error and then counts itself out of the \<open>WaitGroup\<close>; the one of \<open>ComputeUserAgent\<close> only logs.
\<close>

definition goroutine_end :: "nat \<Rightarrow> go_error option \<Rightarrow> supervisor \<Rightarrow> supervisor" where
  "goroutine_end i err s =
     (let l = launches s ! i;
          s1 = (case err of
                  None \<Rightarrow> s
                | Some e \<Rightarrow>
                    if l_tracked l then log_at Error (l_logger l) ''launching chromium'' [(''err'', VErr e)] s
                    else log_at Error (sup_logger s) ''ComputeUserAgent launching chromium'' [(''err'', VErr e)] s);
          s2 = (if l_tracked l then s1\<lparr>wg := wg s1 - 1\<rparr> else s1)
      in set_phase i Ended s2)"

definition launch_begin :: "mkdir_env \<Rightarrow> nat \<Rightarrow> supervisor \<Rightarrow> supervisor" where
  "launch_begin e i s =
     (let l = launches s ! i;
          s1 = log_at Debug (l_logger l) ''starting session'' [] s
      in (case mkdirTemp e s1 of
            (Inl err, s2) \<Rightarrow>
              goroutine_end i (Some (Errorf ''creating temporary directory: %w'' [] (Some err))) s2
          | (Inr tmpDir, s2) \<Rightarrow>
              set_phase i (Running (launch_cmd (opts s2) (userAgent s2) tmpDir) tmpDir (now s2)) s2))"

section \<open>After chromium has ended\<close>

record process_state =
  ps_pid :: int
  ps_exitCode :: int
  ps_more :: attrs
  ps_maxrss :: "64 word option"

record run_env =
  run_err :: "go_error option"
  run_files :: filesystem
  run_state :: "process_state option"
  run_output :: attrs
  run_debug :: bool
  remove_err :: "go_error option"

text \<open>The comparison of the OOM counter with the sample taken before the session.\<close>

definition oom_check :: "launch \<Rightarrow> filesystem \<Rightarrow> supervisor \<Rightarrow> supervisor" where
  "oom_check l fs s =
     (if l_oomBeforeErr l \<noteq> None then s
      else (case readOOMKillCount fs (CgroupMemoryEventsPath (opts s)) of
              Inl oomErr \<Rightarrow>
                log_at Warn (l_logger l) ''could not read cgroup OOM kill count after session''
                  [(''err'', VErr oomErr)] s
            | Inr oomAfter \<Rightarrow>
                if oomAfter < l_oomBefore l then
                  log_at Warn (l_logger l)
                    ''cgroup OOM kill counter decreased unexpectedly (counter reset or cgroup recreated?)''
                    [(''before'', VUint (l_oomBefore l)), (''after'', VUint oomAfter)] s
                else (let delta = oomAfter - l_oomBefore l
                      in if 0 < delta
                         then observe (OOMKills_Add (float64 (unat delta)))
                                (log_at Warn (l_logger l) ''OOM kill(s) detected during session''
                                  [(''oomKills'', VUint delta)] s)
                         else s)))"

definition err_attr :: "go_error option \<Rightarrow> attrs" where
  "err_attr err = (case err of None \<Rightarrow> [] | Some e \<Rightarrow> [(''err'', VErr e)])"

definition state_attrs :: "process_state option \<Rightarrow> attrs" where
  "state_attrs ps =
     (case ps of
        None \<Rightarrow> []
      | Some p \<Rightarrow> [(''pid'', VInt (ps_pid p)), (''exitCode'', VInt (ps_exitCode p))] @ ps_more p)"

text \<open>The peak resident set in bytes, when the system reports one; \<open>int64\<close> arithmetic, then \<open>float64\<close>.\<close>

definition observe_rss :: "process_state option \<Rightarrow> supervisor \<Rightarrow> supervisor" where
  "observe_rss ps s =
     (case ps of
        None \<Rightarrow> s
      | Some p \<Rightarrow>
          (case ps_maxrss p of
             None \<Rightarrow> s
           | Some kib \<Rightarrow> observe (ChromiumResources_Observe ResourceRSS (float64_int (sint (kib * 1024)))) s))"

text \<open>
  Whether the execution counts as failed: chromium ended with an error, and not because the
  session's context was cancelled.
\<close>

definition run_failed :: "go_error option \<Rightarrow> go_error option \<Rightarrow> bool" where
  "run_failed err cerr \<longleftrightarrow>
     err \<noteq> None \<and> \<not> (case cerr of None \<Rightarrow> False | Some e \<Rightarrow> errors_Is e Canceled)"

definition launch_report :: "run_env \<Rightarrow> launch \<Rightarrow> go_error option \<Rightarrow> supervisor \<Rightarrow> go_error option \<times> supervisor" where
  "launch_report e l cerr s =
     (let attrs = err_attr (run_err e) @ state_attrs (run_state e)
      in if run_failed (run_err e) cerr
         then (run_err e,
               log_at Error (l_logger l) ''chromium process finished'' (attrs @ run_output e)
                 (observe (ChromiumExecutions_Inc ExecutionStateFailed) s))
         else (None,
               log_at Info (l_logger l) ''chromium process finished''
                 (if run_debug e then attrs @ run_output e else attrs)
                 (observe (ChromiumExecutions_Inc ExecutionStateFinished) s)))"

text \<open>
  The deferred functions of \<open>launch\<close>, last registered first: the session's duration is
  observed, then the temporary directory removed; when that fails the goroutine panics, and
  with it the program, after its own deferred \<open>wg.Done\<close>.
\<close>

definition launch_deferred :: "run_env \<Rightarrow> string \<Rightarrow> instant \<Rightarrow> supervisor \<Rightarrow> supervisor" where
  "launch_deferred e tmpDir created s =
     (let s1 = observe (SessionDuration_Observe (now s - created)) s
      in if remove_err e = None then os_done (RemoveAll tmpDir) s1 else s1\<lparr>crashed := True\<rparr>)"

definition launch_finish :: "run_env \<Rightarrow> nat \<Rightarrow> supervisor \<Rightarrow> supervisor" where
  "launch_finish e i s =
     (let l = launches s ! i
      in (case l_phase l of
            Running cmd tmpDir created \<Rightarrow>
              (let s1 = oom_check l (run_files e) s;
                   s2 = observe_rss (run_state e) s1;
                   (err, s3) = launch_report e l (ctx_err (ctxs s2 ! l_ctx l)) s2;
                   s4 = launch_deferred e tmpDir created s3
               in goroutine_end i (if remove_err e = None then err else None) s4)
          | _ \<Rightarrow> s))"

section \<open>What the steps leave alone\<close>

lemma os_done_frame [simp]:
  "opts (os_done c s) = opts s" "sup_logger (os_done c s) = sup_logger s"
  "sessions (os_done c s) = sessions s" "metrics (os_done c s) = metrics s"
  "userAgent (os_done c s) = userAgent s" "wg (os_done c s) = wg s"
  "draining (os_done c s) = draining s" "mtx (os_done c s) = mtx s" "ctxs (os_done c s) = ctxs s"
  "launches (os_done c s) = launches s" "logs (os_done c s) = logs s"
  "crashed (os_done c s) = crashed s" "now (os_done c s) = now s"
  by (simp_all add: os_done_def)

lemma os_done_calls [simp]: "os_calls (os_done c s) = c # os_calls s"
  by (simp add: os_done_def)

lemma set_phase_frame [simp]:
  "opts (set_phase i ph s) = opts s" "sup_logger (set_phase i ph s) = sup_logger s"
  "sessions (set_phase i ph s) = sessions s" "metrics (set_phase i ph s) = metrics s"
  "userAgent (set_phase i ph s) = userAgent s" "wg (set_phase i ph s) = wg s"
  "draining (set_phase i ph s) = draining s" "mtx (set_phase i ph s) = mtx s"
  "ctxs (set_phase i ph s) = ctxs s" "logs (set_phase i ph s) = logs s"
  "os_calls (set_phase i ph s) = os_calls s" "crashed (set_phase i ph s) = crashed s"
  "now (set_phase i ph s) = now s"
  by (simp_all add: set_phase_def)

lemma mkdirTemp_frame [simp]:
  "opts (snd (mkdirTemp e s)) = opts s" "sup_logger (snd (mkdirTemp e s)) = sup_logger s"
  "sessions (snd (mkdirTemp e s)) = sessions s" "metrics (snd (mkdirTemp e s)) = metrics s"
  "userAgent (snd (mkdirTemp e s)) = userAgent s" "wg (snd (mkdirTemp e s)) = wg s"
  "draining (snd (mkdirTemp e s)) = draining s" "mtx (snd (mkdirTemp e s)) = mtx s"
  "ctxs (snd (mkdirTemp e s)) = ctxs s" "launches (snd (mkdirTemp e s)) = launches s"
  "crashed (snd (mkdirTemp e s)) = crashed s" "now (snd (mkdirTemp e s)) = now s"
  by (simp_all add: mkdirTemp_def mkdir_in_def Let_def split: sum.split option.split)

lemma goroutine_end_frame [simp]:
  "opts (goroutine_end i err s) = opts s" "sup_logger (goroutine_end i err s) = sup_logger s"
  "sessions (goroutine_end i err s) = sessions s" "metrics (goroutine_end i err s) = metrics s"
  "userAgent (goroutine_end i err s) = userAgent s" "draining (goroutine_end i err s) = draining s"
  "mtx (goroutine_end i err s) = mtx s" "ctxs (goroutine_end i err s) = ctxs s"
  "os_calls (goroutine_end i err s) = os_calls s" "crashed (goroutine_end i err s) = crashed s"
  "now (goroutine_end i err s) = now s"
  by (simp_all add: goroutine_end_def Let_def split: option.split)

lemma launch_begin_frame [simp]:
  "opts (launch_begin e i s) = opts s" "sup_logger (launch_begin e i s) = sup_logger s"
  "sessions (launch_begin e i s) = sessions s" "metrics (launch_begin e i s) = metrics s"
  "userAgent (launch_begin e i s) = userAgent s" "draining (launch_begin e i s) = draining s"
  "mtx (launch_begin e i s) = mtx s" "ctxs (launch_begin e i s) = ctxs s"
  "crashed (launch_begin e i s) = crashed s" "now (launch_begin e i s) = now s"
  by (simp_all add: launch_begin_def Let_def case_prod_unfold split: sum.split)

lemma oom_check_frame [simp]:
  "opts (oom_check l fs s) = opts s" "sup_logger (oom_check l fs s) = sup_logger s"
  "sessions (oom_check l fs s) = sessions s" "userAgent (oom_check l fs s) = userAgent s"
  "wg (oom_check l fs s) = wg s" "draining (oom_check l fs s) = draining s"
  "mtx (oom_check l fs s) = mtx s" "ctxs (oom_check l fs s) = ctxs s"
  "launches (oom_check l fs s) = launches s" "os_calls (oom_check l fs s) = os_calls s"
  "crashed (oom_check l fs s) = crashed s" "now (oom_check l fs s) = now s"
  by (simp_all add: oom_check_def Let_def split: sum.split)

lemma observe_rss_frame [simp]:
  "opts (observe_rss ps s) = opts s" "sup_logger (observe_rss ps s) = sup_logger s"
  "sessions (observe_rss ps s) = sessions s" "userAgent (observe_rss ps s) = userAgent s"
  "wg (observe_rss ps s) = wg s" "draining (observe_rss ps s) = draining s"
  "mtx (observe_rss ps s) = mtx s" "ctxs (observe_rss ps s) = ctxs s"
  "launches (observe_rss ps s) = launches s" "logs (observe_rss ps s) = logs s"
  "os_calls (observe_rss ps s) = os_calls s" "crashed (observe_rss ps s) = crashed s"
  "now (observe_rss ps s) = now s"
  by (simp_all add: observe_rss_def split: option.split)

lemma launch_report_frame [simp]:
  "opts (snd (launch_report e l cerr s)) = opts s"
  "sup_logger (snd (launch_report e l cerr s)) = sup_logger s"
  "sessions (snd (launch_report e l cerr s)) = sessions s"
  "userAgent (snd (launch_report e l cerr s)) = userAgent s"
  "wg (snd (launch_report e l cerr s)) = wg s"
  "draining (snd (launch_report e l cerr s)) = draining s"
  "mtx (snd (launch_report e l cerr s)) = mtx s" "ctxs (snd (launch_report e l cerr s)) = ctxs s"
  "launches (snd (launch_report e l cerr s)) = launches s"
  "os_calls (snd (launch_report e l cerr s)) = os_calls s"
  "crashed (snd (launch_report e l cerr s)) = crashed s"
  "now (snd (launch_report e l cerr s)) = now s"
  by (simp_all add: launch_report_def Let_def)

lemma launch_deferred_frame [simp]:
  "opts (launch_deferred e tmpDir t0 s) = opts s"
  "sup_logger (launch_deferred e tmpDir t0 s) = sup_logger s"
  "sessions (launch_deferred e tmpDir t0 s) = sessions s"
  "userAgent (launch_deferred e tmpDir t0 s) = userAgent s"
  "wg (launch_deferred e tmpDir t0 s) = wg s" "draining (launch_deferred e tmpDir t0 s) = draining s"
  "mtx (launch_deferred e tmpDir t0 s) = mtx s" "ctxs (launch_deferred e tmpDir t0 s) = ctxs s"
  "launches (launch_deferred e tmpDir t0 s) = launches s"
  "logs (launch_deferred e tmpDir t0 s) = logs s" "now (launch_deferred e tmpDir t0 s) = now s"
  by (simp_all add: launch_deferred_def Let_def)

lemma launch_finish_frame [simp]:
  "opts (launch_finish e i s) = opts s" "sup_logger (launch_finish e i s) = sup_logger s"
  "sessions (launch_finish e i s) = sessions s" "userAgent (launch_finish e i s) = userAgent s"
  "draining (launch_finish e i s) = draining s" "mtx (launch_finish e i s) = mtx s"
  "ctxs (launch_finish e i s) = ctxs s" "now (launch_finish e i s) = now s"
  by (simp_all add: launch_finish_def Let_def case_prod_unfold split: phase.split)

text \<open>The goroutine's own bookkeeping.\<close>

lemma set_phase_launches:
  "launches (set_phase i ph s) = (launches s)[i := (launches s ! i)\<lparr>l_phase := ph\<rparr>]"
  by (simp add: set_phase_def)

lemma goroutine_end_launches:
  "launches (goroutine_end i err s) = (launches s)[i := (launches s ! i)\<lparr>l_phase := Ended\<rparr>]"
  by (simp add: goroutine_end_def Let_def set_phase_launches split: option.split)

lemma goroutine_end_wg:
  "wg (goroutine_end i err s) = (if l_tracked (launches s ! i) then wg s - 1 else wg s)"
  by (simp add: goroutine_end_def Let_def split: option.split)

text \<open>The directory \<open>mkdirTemp\<close> returns, if it returns one.\<close>

definition dir_made :: "mkdir_env \<Rightarrow> Options \<Rightarrow> string option" where
  "dir_made e opt =
     (if (case stat_err e of None \<Rightarrow> False | Some err \<Rightarrow> errors_Is err ErrNotExist) \<and> mkdirall_err e \<noteq> None
      then None
      else (case mkdirtemp_res e of
              Inl _ \<Rightarrow> None
            | Inr d \<Rightarrow> if UserGroup opt = 0 \<or> chown_err e = None then Some d else None))"

lemma mkdirTemp_result:
  "case fst (mkdirTemp e s) of
     Inl _ \<Rightarrow> dir_made e (opts s) = None
   | Inr d \<Rightarrow> dir_made e (opts s) = Some d"
  by (auto simp: mkdirTemp_def mkdir_in_def dir_made_def Let_def split: sum.split option.split)

lemma launch_begin_eq:
  "launch_begin e i s =
     (let s1 = log_at Debug (l_logger (launches s ! i)) ''starting session'' [] s;
          r = fst (mkdirTemp e s1); s2 = snd (mkdirTemp e s1)
      in (case r of
            Inl err \<Rightarrow>
              goroutine_end i (Some (Errorf ''creating temporary directory: %w'' [] (Some err))) s2
          | Inr tmpDir \<Rightarrow>
              set_phase i (Running (launch_cmd (opts s) (userAgent s) tmpDir) tmpDir (now s)) s2))"
  by (simp add: launch_begin_def Let_def case_prod_unfold split: sum.split)

lemma launch_begin_launches:
  "launches (launch_begin e i s) =
     (launches s)[i := (launches s ! i)\<lparr>l_phase :=
        (case dir_made e (opts s) of
           None \<Rightarrow> Ended
         | Some d \<Rightarrow> Running (launch_cmd (opts s) (userAgent s) d) d (now s))\<rparr>]"
  using mkdirTemp_result [of e "log_at Debug (l_logger (launches s ! i)) ''starting session'' [] s"]
  by (simp add: launch_begin_eq Let_def goroutine_end_launches set_phase_launches split: sum.splits)

lemma launch_begin_wg:
  "wg (launch_begin e i s) =
     (if dir_made e (opts s) = None \<and> l_tracked (launches s ! i) then wg s - 1 else wg s)"
  using mkdirTemp_result [of e "log_at Debug (l_logger (launches s ! i)) ''starting session'' [] s"]
  by (simp add: launch_begin_eq Let_def goroutine_end_wg split: sum.splits)

lemma launch_finish_eq:
  assumes "l_phase (launches s ! i) = Running cmd tmpDir t0"
  shows "launch_finish e i s =
     (let l = launches s ! i;
          s2 = observe_rss (run_state e) (oom_check l (run_files e) s);
          r = launch_report e l (ctx_err (ctxs s ! l_ctx l)) s2
      in goroutine_end i (if remove_err e = None then fst r else None)
           (launch_deferred e tmpDir t0 (snd r)))"
  using assms by (simp add: launch_finish_def Let_def case_prod_unfold)

lemma launch_finish_launches:
  assumes "l_phase (launches s ! i) = Running cmd tmpDir t0"
  shows "launches (launch_finish e i s) = (launches s)[i := (launches s ! i)\<lparr>l_phase := Ended\<rparr>]"
  by (simp add: launch_finish_eq [OF assms] Let_def goroutine_end_launches)

lemma launch_finish_wg:
  assumes "l_phase (launches s ! i) = Running cmd tmpDir t0"
  shows "wg (launch_finish e i s) = (if l_tracked (launches s ! i) then wg s - 1 else wg s)"
  by (simp add: launch_finish_eq [OF assms] Let_def goroutine_end_wg)

lemma launch_finish_idle:
  "l_phase (launches s ! i) = Ended \<Longrightarrow> launch_finish e i s = s"
  "l_phase (launches s ! i) = Spawned \<Longrightarrow> launch_finish e i s = s"
  by (simp_all add: launch_finish_def Let_def)

section \<open>Readings of the metrics\<close>

fun executions_total :: "string \<Rightarrow> metric_log \<Rightarrow> nat" where
  "executions_total st [] = 0"
| "executions_total st (ChromiumExecutions_Inc st' # l) =
     (if st' = st then Suc (executions_total st l) else executions_total st l)"
| "executions_total st (_ # l) = executions_total st l"

fun durations :: "metric_log \<Rightarrow> duration list" where
  "durations [] = []"
| "durations (SessionDuration_Observe d # l) = d # durations l"
| "durations (_ # l) = durations l"

lemma goroutine_end_calls [simp]: "metrics (goroutine_end i err s) = metrics s"
  by simp

lemma launch_deferred_metrics:
  "metrics (launch_deferred e d t0 s) = SessionDuration_Observe (now s - t0) # metrics s"
  by (simp add: launch_deferred_def Let_def)

lemma launch_report_metrics:
  "metrics (snd (launch_report e l cerr s)) =
     ChromiumExecutions_Inc
       (if run_failed (run_err e) cerr then ExecutionStateFailed else ExecutionStateFinished) # metrics s"
  by (simp add: launch_report_def Let_def)

lemma observe_rss_readings:
  "oom_kills_total (metrics (observe_rss ps s)) = oom_kills_total (metrics s)"
  "executions_total st (metrics (observe_rss ps s)) = executions_total st (metrics s)"
  "durations (metrics (observe_rss ps s)) = durations (metrics s)"
  by (simp_all add: observe_rss_def split: option.split)

lemma oom_check_readings:
  "executions_total st (metrics (oom_check l fs s)) = executions_total st (metrics s)"
  "durations (metrics (oom_check l fs s)) = durations (metrics s)"
  by (simp_all add: oom_check_def Let_def split: sum.split)

text \<open>The kills between two samples of a counter that only grows; none when it went back.\<close>

definition kills_between :: "64 word \<Rightarrow> go_error option \<Rightarrow> go_error + 64 word \<Rightarrow> nat" where
  "kills_between before err after =
     (case (err, after) of (None, Inr n) \<Rightarrow> unat n - unat before | _ \<Rightarrow> 0)"

lemma unat_delta: "\<not> after < (before :: 64 word) \<Longrightarrow> unat (after - before) = unat after - unat before"
  by (simp add: unat_sub not_less)

lemma oom_check_total:
  "oom_kills_total (metrics (oom_check l fs s)) =
     float64 (kills_between (l_oomBefore l) (l_oomBeforeErr l) (readOOMKillCount fs (CgroupMemoryEventsPath (opts s))))
     + oom_kills_total (metrics s)"
proof (cases "l_oomBeforeErr l")
  case None
  show ?thesis
  proof (cases "readOOMKillCount fs (CgroupMemoryEventsPath (opts s))")
    case (Inl e)
    with None show ?thesis by (simp add: oom_check_def kills_between_def)
  next
    case (Inr n)
    consider "n < l_oomBefore l" | "\<not> n < l_oomBefore l" "n - l_oomBefore l = 0" | "\<not> n < l_oomBefore l" "0 < n - l_oomBefore l"
      using word_neq_0_conv [of "n - l_oomBefore l"] by blast
    then show ?thesis
      using None Inr
      by cases (simp_all add: oom_check_def kills_between_def unat_delta word_less_nat_alt Let_def)
  qed
qed (simp add: oom_check_def kills_between_def)

section \<open>Properties\<close>

text \<open>
  C24.  The browser's command.  A goroutine that has been scheduled either ends without starting
  chromium, exactly when no directory could be made, and then it counts itself out, or it
  runs the executable of the options with the whole argument list spelled out: headless, without
  sandbox, debugging on the port of the options, one \<open>--disable-features\<close> switch, the
  user agent last and exactly when one is set.  The only environment variable is \<open>TMPDIR\<close> with the
  new directory, and there are credentials, the low 32 bits of \<open>UserGroup\<close> for both, exactly when
  that is not zero.
\<close>

theorem launch_begin_spec:
  assumes "i < length (launches s)" and "s' = launch_begin e i s"
  shows "case dir_made e (opts s) of
      None \<Rightarrow> l_phase (launches s' ! i) = Ended \<and>
        wg s' = wg s - (if l_tracked (launches s ! i) then 1 else 0)
    | Some d \<Rightarrow> wg s' = wg s \<and>
        (\<exists>cmd. l_phase (launches s' ! i) = Running cmd d (now s) \<and>
          cmd_path cmd = ChromiumPath (opts s) \<and>
          cmd_args cmd =
            [''--headless'', ''--remote-debugging-address=0.0.0.0'', ''--remote-debugging-port='' @ ChromiumPort (opts s),
             ''--no-sandbox'', ''--disable-dev-shm-usage'', ''--disable-breakpad'', ''--disable-crash-reporter'',
             ''--disable-3d-apis'', ''--disable-audio-input'', ''--disable-audio-output'', ''--disable-default-apps'',
             ''--disable-extensions'', ''--disable-file-system'', ''--disable-first-run-ui'', ''--disable-notifications'',
             ''--disable-smooth-scrolling'',
             ''--disable-features=WebUIOmniboxPopup,WebUIOmniboxAimPopup,AvoidCorsURLLoaderRestartOnRedirect''] @
            (if userAgent s = [] then [] else [''--user-agent='' @ userAgent s]) \<and>
          cmd_env cmd = [''TMPDIR='' @ d] \<and>
          length (filter (\<lambda>a. HasPrefix a ''--disable-features'') (cmd_args cmd)) = 1 \<and>
          ''--remote-debugging-port='' @ ChromiumPort (opts s) \<in> set (cmd_args cmd) \<and>
          filter (\<lambda>a. HasPrefix a ''--user-agent='') (cmd_args cmd) =
            (if userAgent s = [] then [] else [''--user-agent='' @ userAgent s]) \<and>
          cmd_cred cmd =
            (if UserGroup (opts s) = 0 then None
             else Some (word_of_int (UserGroup (opts s)), word_of_int (UserGroup (opts s)))))"
  using assms
  by (simp add: launch_begin_launches launch_begin_wg launch_cmd_def launch_args_def split: option.split)

definition sample_launch :: "ctx_id \<Rightarrow> 64 word \<Rightarrow> phase \<Rightarrow> launch" where
  "sample_launch c before ph =
     \<lparr>l_ctx = c, l_logger = [], l_oomBefore = before, l_oomBeforeErr = None, l_tracked = True, l_phase = ph\<rparr>"

definition sample_ctx :: ctx where
  "sample_ctx = \<lparr>ctx_start = 0, deadline = Some (300 * second), ctx_err = None,
     after_func = Some (''0123456789ab'', []), after_ran = False\<rparr>"

definition sample_supervisor :: supervisor where
  "sample_supervisor =
     (New (sample_fs ''/f'' []) sample_procfs ''/tmp'' 7 [] sample_options 0)
       \<lparr>ctxs := [sample_ctx], launches := [sample_launch 0 2 Spawned], wg := 1\<rparr>"

definition sample_mkdir :: mkdir_env where
  "sample_mkdir = \<lparr>stat_err = None, mkdirall_err = None, mkdirtemp_res = Inr ''/chromium-tmp/1'', chown_err = None\<rparr>"

theorem launch_begin_spec_witness:
  "wg (launch_begin sample_mkdir 0 sample_supervisor) = 1 \<and>
   (\<exists>cmd. l_phase (launches (launch_begin sample_mkdir 0 sample_supervisor) ! 0) = Running cmd ''/chromium-tmp/1'' 0 \<and>
      cmd_cred cmd = Some (65534, 65534) \<and> cmd_env cmd = [''TMPDIR=/chromium-tmp/1''])"
  using launch_begin_spec [OF _ refl, of 0 sample_supervisor sample_mkdir]
  by (auto simp: sample_supervisor_def sample_mkdir_def dir_made_def New_def withDefaults_eq Let_def
      sample_options_def sample_launch_def)

text \<open>
  C22.  OOM kills are counted, as far as \<open>float64\<close> can.  Let \<open>n\<close> be the number of kills the kernel
  has counted since the sample taken before the session, without wrap-around, and zero when either
  sample is missing or the kernel's counter went back.  When chromium has ended, what has
  been added to the counter of OOM kills grows by \<open>n\<close> converted to \<open>float64\<close>: by exactly \<open>n\<close> up
  to 2^53, and above that by a number that differs from \<open>n\<close> by at most one part in 2^53.
\<close>

theorem launch_finish_oom_kills:
  assumes "l_phase (launches s ! i) = Running cmd d t0"
    and "n = (case (l_oomBeforeErr (launches s ! i),
                readOOMKillCount (run_files e) (CgroupMemoryEventsPath (opts s))) of
              (None, Inr after) \<Rightarrow> unat after - unat (l_oomBefore (launches s ! i))
            | _ \<Rightarrow> 0)"
    and "added = oom_kills_total (metrics (launch_finish e i s)) - oom_kills_total (metrics s)"
  shows "oom_kills_total (metrics (launch_finish e i s)) = oom_kills_total (metrics s) + float64 n \<and>
    (n \<le> 2 ^ 53 \<longrightarrow> added = n) \<and> \<bar>int added - int n\<bar> * 2 ^ 53 \<le> int n"
proof -
  have t: "oom_kills_total (metrics (launch_finish e i s)) = oom_kills_total (metrics s) + float64 n"
    by (simp add: launch_finish_eq [OF assms(1)] Let_def launch_deferred_metrics launch_report_metrics
        observe_rss_readings oom_check_total kills_between_def assms(2))
  then have "added = float64 n" by (simp add: assms(3))
  then show ?thesis using t float64_exact float64_error by simp
qed

definition sample_run :: "string \<Rightarrow> run_env" where
  "sample_run events =
     \<lparr>run_err = Some (ErrExt ''signal: killed''), run_files = sample_fs ''/sys/fs/cgroup/memory.events'' events,
      run_state = None, run_output = [], run_debug = False, remove_err = None\<rparr>"

definition sample_running :: supervisor where
  "sample_running = sample_supervisor\<lparr>launches :=
     [sample_launch 0 2 (Running (launch_cmd sample_options [] ''/chromium-tmp/1'') ''/chromium-tmp/1'' 0)]\<rparr>"

lemma sample_events:
  "readOOMKillCount (sample_fs ''/sys/fs/cgroup/memory.events'' (unlines [''oom 9'', ''oom_kill 5'']))
     ''/sys/fs/cgroup/memory.events'' = Inr 5"
proof -
  have d: "dec 5 = ''5''" by code_simp
  then have "ParseUint ''5'' = Inr 5" using ParseUint_dec [of 5] by simp
  then show ?thesis
    by (subst readOOMKillCount_lines [OF sample_fs_open])
      (simp_all add: plain_line_def fits_def oom_kill_prefix_def TrimPrefix_def)
qed

lemma sample_running_simps [simp]:
  "launches sample_running =
     [sample_launch 0 2 (Running (launch_cmd sample_options [] ''/chromium-tmp/1'') ''/chromium-tmp/1'' 0)]"
  "metrics sample_running = []" "wg sample_running = 1" "os_calls sample_running = []"
  "ctxs sample_running = [sample_ctx]" "crashed sample_running = False" "now sample_running = 0"
  "CgroupMemoryEventsPath (opts sample_running) = ''/sys/fs/cgroup/memory.events''"
  by (simp_all add: sample_running_def sample_supervisor_def New_def withDefaults_eq Let_def sample_options_def)

lemma sample_launch_simps [simp]:
  "l_ctx (sample_launch c b ph) = c" "l_oomBefore (sample_launch c b ph) = b"
  "l_oomBeforeErr (sample_launch c b ph) = None" "l_tracked (sample_launch c b ph)"
  "l_phase (sample_launch c b ph) = ph"
  by (simp_all add: sample_launch_def)

theorem launch_finish_oom_kills_witness:
  "oom_kills_total (metrics (launch_finish (sample_run (unlines [''oom 9'', ''oom_kill 5''])) 0 sample_running)) = 3"
proof -
  have r: "readOOMKillCount (run_files (sample_run (unlines [''oom 9'', ''oom_kill 5'']))) ''/sys/fs/cgroup/memory.events'' = Inr 5"
    unfolding sample_run_def run_env.simps by (rule sample_events)
  show ?thesis
    using launch_finish_oom_kills [of sample_running 0, OF _ refl refl, where e = "sample_run (unlines [''oom 9'', ''oom_kill 5''])"]
    by (simp add: r del: unlines.simps)
qed

text \<open>
  C23.  The end of an execution.  Chromium's execution is counted once: as failed exactly when
  it ended with an error and the session's context was not cancelled, so a session that ran into
  its timeout counts as failed.  The duration since the start is observed once, the goroutine has
  ended and is counted out of the \<open>WaitGroup\<close>, its directory is removed last, and the program
  crashes exactly when that fails.
\<close>

theorem launch_finish_spec:
  assumes "i < length (launches s)" and "l_phase (launches s ! i) = Running cmd d t0"
    and "s' = launch_finish e i s"
    and "failed \<longleftrightarrow> run_err e \<noteq> None \<and>
      (\<forall>c. ctx_err (ctxs s ! l_ctx (launches s ! i)) = Some c \<longrightarrow> \<not> errors_Is c Canceled)"
  shows "executions_total ExecutionStateFailed (metrics s') =
      executions_total ExecutionStateFailed (metrics s) + (if failed then 1 else 0) \<and>
    executions_total ExecutionStateFinished (metrics s') =
      executions_total ExecutionStateFinished (metrics s) + (if failed then 0 else 1) \<and>
    durations (metrics s') = (now s - t0) # durations (metrics s) \<and>
    l_phase (launches s' ! i) = Ended \<and>
    wg s' = wg s - (if l_tracked (launches s ! i) then 1 else 0) \<and>
    os_calls s' = (if remove_err e = None then [RemoveAll d] else []) @ os_calls s \<and>
    (crashed s' \<longleftrightarrow> crashed s \<or> remove_err e \<noteq> None)"
proof -
  have f: "failed \<longleftrightarrow> run_failed (run_err e) (ctx_err (ctxs s ! l_ctx (launches s ! i)))"
    by (auto simp: assms(4) run_failed_def split: option.splits)
  have d: "os_calls (launch_deferred e d t0 u) = (if remove_err e = None then [RemoveAll d] else []) @ os_calls u"
    "crashed (launch_deferred e d t0 u) \<longleftrightarrow> crashed u \<or> remove_err e \<noteq> None" for u
    by (simp_all add: launch_deferred_def Let_def)
  show ?thesis
    using assms(1)
    by (simp add: f assms(3) launch_finish_eq [OF assms(2)] Let_def goroutine_end_launches goroutine_end_wg
        launch_deferred_metrics launch_report_metrics observe_rss_readings oom_check_readings d
        ExecutionStateFailed_def ExecutionStateFinished_def)
qed

theorem launch_finish_spec_witness:
  "executions_total ''failed'' (metrics (launch_finish (sample_run []) 0 sample_running)) = 1 \<and>
   wg (launch_finish (sample_run []) 0 sample_running) = 0 \<and>
   os_calls (launch_finish (sample_run []) 0 sample_running) = [RemoveAll ''/chromium-tmp/1'']"
  using launch_finish_spec [of 0 sample_running, OF _ _ refl [of "launch_finish (sample_run []) 0 sample_running"] refl]
  by (simp add: sample_run_def sample_ctx_def ExecutionStateFailed_def)

text \<open>
  C27.  A directory that cannot be given to chromium's user stays.  When \<open>UserGroup\<close> is set and
  the change of owner fails, the goroutine ends with the directory it has made still there: no
  removal was requested, and the goroutine does nothing any more.
\<close>

theorem launch_begin_chown_leak:
  assumes "i < length (launches s)" and "UserGroup (opts s) \<noteq> 0"
    and "stat_err e = None" and "mkdirtemp_res e = Inr d" and "chown_err e = Some err"
  shows "os_calls (launch_begin e i s) = MkdirTemp d # os_calls s \<and>
    l_phase (launches (launch_begin e i s) ! i) = Ended \<and>
    launch_finish e' i (launch_begin e i s) = launch_begin e i s"
proof -
  have c: "os_calls (goroutine_end i r u) = os_calls u" for r u by simp
  have "l_phase (launches (launch_begin e i s) ! i) = Ended"
    using assms by (simp add: launch_begin_launches dir_made_def)
  then show ?thesis
    using assms by (simp add: launch_finish_idle launch_begin_eq Let_def mkdirTemp_def mkdir_in_def c)
qed

theorem launch_begin_chown_leak_witness:
  "os_calls (launch_begin (sample_mkdir\<lparr>chown_err := Some (ErrExt ''EPERM'')\<rparr>) 0 sample_supervisor) =
     [MkdirTemp ''/chromium-tmp/1'']"
  using launch_begin_chown_leak [of 0 sample_supervisor "sample_mkdir\<lparr>chown_err := Some (ErrExt ''EPERM'')\<rparr>"
      "''/chromium-tmp/1''" "ErrExt ''EPERM''"]
  by (simp add: sample_supervisor_def sample_mkdir_def New_def withDefaults_eq Let_def sample_options_def)

end
