(* ===== verification/Background.thy ===== *)
theory Background
  imports Launch
begin

text \<open>
  What goes on beside the calls of the API: goroutines that run \<open>launch\<close>, deadlines that pass,
  time.  None of it needs the mutex.  The theory also holds \<open>ComputeUserAgent\<close>, which probes
  chromium while its own goroutine is such an activity.
\<close>

section \<open>Events\<close>

datatype event =
    GoLaunch mkdir_env nat
  | ChromiumExit run_env nat
  | Expire ctx_id
  | Tick nat

text \<open>A context whose deadline has passed is done with \<open>DeadlineExceeded\<close>, unless it was done before.\<close>

definition expire :: "ctx_id \<Rightarrow> supervisor \<Rightarrow> supervisor" where
  "expire c s =
     (if c < length (ctxs s) \<and> ctx_err (ctxs s ! c) = None \<and>
         (case deadline (ctxs s ! c) of None \<Rightarrow> False | Some d \<Rightarrow> d \<le> now s)
      then s\<lparr>ctxs := (ctxs s)[c := (ctxs s ! c)\<lparr>ctx_err := Some DeadlineExceeded\<rparr>]\<rparr>
      else s)"

text \<open>An event that is not possible in a state has no effect there.\<close>

fun happen :: "event \<Rightarrow> supervisor \<Rightarrow> supervisor" where
  "happen (GoLaunch e i) s =
     (if \<not> crashed s \<and> i < length (launches s) \<and> l_phase (launches s ! i) = Spawned
      then launch_begin e i s else s)"
| "happen (ChromiumExit e i) s =
     (if \<not> crashed s \<and> i < length (launches s) then launch_finish e i s else s)"
| "happen (Expire c) s = (if crashed s then s else expire c s)"
| "happen (Tick d) s = s\<lparr>now := now s + int d\<rparr>"

abbreviation meanwhile :: "event list \<Rightarrow> supervisor \<Rightarrow> supervisor" where
  "meanwhile \<equiv> fold happen"

section \<open>The user agent\<close>

definition patch_user_agent :: "string \<Rightarrow> string \<Rightarrow> string" where
  "patch_user_agent defaultUA extra =
     (let patchedUA = ReplaceAll defaultUA ''Headless'' []
      in if extra \<noteq> [] then patchedUA @ '' '' @ extra else patchedUA)"

text \<open>The deadline of a context made with a timeout of two seconds from a parent context.\<close>

definition probe_deadline :: "instant option \<Rightarrow> instant \<Rightarrow> instant" where
  "probe_deadline parent t =
     (case parent of None \<Rightarrow> t + 2 * second | Some d \<Rightarrow> min d (t + 2 * second))"

text \<open>
  \<open>ComputeUserAgent\<close> up to the probe: a context of its own below that of the caller, whose
  deadline is the first argument, and a goroutine that is not counted in the \<open>WaitGroup\<close>.
\<close>

definition compute_begin :: "instant option \<Rightarrow> supervisor \<Rightarrow> ctx_id \<times> supervisor" where
  "compute_begin parent s =
     (let c = length (ctxs s)
      in (c, s\<lparr>ctxs := ctxs s @
                 [\<lparr>ctx_start = now s, deadline = parent, ctx_err = None, after_func = None, after_ran = False\<rparr>],
               launches := launches s @
                 [\<lparr>l_ctx = c, l_logger = sup_logger s @ [(''sessionID'', VStr ''compute-user-agent'')],
                   l_oomBefore = 0, l_oomBeforeErr = Some (ErrExt ''skip OOM sampling''),
                   l_tracked = False, l_phase = Spawned\<rparr>]\<rparr>))"

text \<open>The rest of it, with the deferred cancellation on every return.\<close>

definition compute_end :: "ctx_id \<Rightarrow> go_error + VersionInfo \<Rightarrow> supervisor \<Rightarrow> go_error option \<times> supervisor" where
  "compute_end c res s =
     (case res of
        Inl err \<Rightarrow> (Some (Errorf ''contacting chromium: %w'' [] (Some err)), cancel_ctx c s)
      | Inr vi \<Rightarrow>
          (let s1 = log_at Debug (sup_logger s) ''Found default user agent''
                      [(''defaultUA'', VStr (UserAgent vi))] s;
               s2 = s1\<lparr>userAgent := patch_user_agent (UserAgent vi) (ExtraUATerms (opts s))\<rparr>;
               s3 = log_at Info (sup_logger s) ''Computed new user agent''
                      [(''UA'', VStr (userAgent s2))] s2
           in (None, cancel_ctx c s3)))"

text \<open>
  The whole of it; the events are what goes on while the probe runs.
\<close>

definition ComputeUserAgent ::
    "event list \<Rightarrow> instant option \<Rightarrow> (nat \<Rightarrow> attempt) \<Rightarrow> supervisor \<Rightarrow> go_error option \<times> supervisor" where
  "ComputeUserAgent evs parent world s =
     (let (c, s1) = compute_begin parent s;
          (res, t, n) = Version world (probe_deadline parent (now s)) (now s);
          s2 = meanwhile evs s1
      in compute_end c res (s2\<lparr>now := max t (now s2)\<rparr>))"

section \<open>What events leave alone\<close>

text \<open>The same context, possibly done in the meantime.\<close>

definition ctx_le :: "ctx \<Rightarrow> ctx \<Rightarrow> bool" where
  "ctx_le c d \<longleftrightarrow> ctx_start d = ctx_start c \<and> deadline d = deadline c \<and> after_func d = after_func c \<and>
     after_ran d = after_ran c \<and> (ctx_err c \<noteq> None \<longrightarrow> ctx_err d = ctx_err c)"

lemma ctx_le_refl [simp]: "ctx_le c c"
  by (simp add: ctx_le_def)

lemma ctx_le_trans: "ctx_le c d \<Longrightarrow> ctx_le d e \<Longrightarrow> ctx_le c e"
  by (auto simp: ctx_le_def)

lemma ctx_le_cancelled [simp]: "ctx_le c (cancelled c)"
  by (auto simp: ctx_le_def cancelled_def)

text \<open>The same goroutine, possibly further on; one that has ended stays so.\<close>

definition launch_le :: "launch \<Rightarrow> launch \<Rightarrow> bool" where
  "launch_le l m \<longleftrightarrow> l_ctx m = l_ctx l \<and> l_logger m = l_logger l \<and> l_tracked m = l_tracked l \<and>
     l_oomBefore m = l_oomBefore l \<and> l_oomBeforeErr m = l_oomBeforeErr l \<and>
     (l_phase l = Ended \<longrightarrow> l_phase m = Ended)"

lemma launch_le_refl [simp]: "launch_le l l"
  by (simp add: launch_le_def)

lemma launch_le_trans: "launch_le l m \<Longrightarrow> launch_le m n \<Longrightarrow> launch_le l n"
  by (auto simp: launch_le_def)

text \<open>A sequence of calls on metrics that was extended by calls that are not about the table.\<close>

definition other_calls :: "metric_log \<Rightarrow> metric_log \<Rightarrow> bool" where
  "other_calls ms ms' \<longleftrightarrow> (\<exists>ps. (\<forall>p \<in> set ps. \<not> table_op p) \<and> ms' = ps @ ms)"

lemma other_calls_refl [simp]: "other_calls ms ms"
  unfolding other_calls_def by (rule exI [of _ "[]"]) simp

lemma other_calls_Cons [simp]: "\<not> table_op p \<Longrightarrow> other_calls ms ms' \<Longrightarrow> other_calls ms (p # ms')"
  unfolding other_calls_def
proof (elim exE conjE)
  fix ps assume "\<not> table_op p" "\<forall>p \<in> set ps. \<not> table_op p" "ms' = ps @ ms"
  then show "\<exists>ps. (\<forall>p \<in> set ps. \<not> table_op p) \<and> p # ms' = ps @ ms"
    by (intro exI [of _ "p # ps"]) simp
qed

lemma other_calls_trans:
  assumes "other_calls ms ms'" "other_calls ms' ms''"
  shows "other_calls ms ms''"
proof -
  from assms obtain ps qs where "\<forall>p \<in> set ps. \<not> table_op p" "ms' = ps @ ms"
    "\<forall>p \<in> set qs. \<not> table_op p" "ms'' = qs @ ms'"
    unfolding other_calls_def by blast
  then have "(\<forall>p \<in> set (qs @ ps). \<not> table_op p) \<and> ms'' = (qs @ ps) @ ms" by auto
  then show ?thesis unfolding other_calls_def by blast
qed

lemma other_calls_readings:
  assumes "other_calls ms ms'"
  shows "active_gauge ms' = active_gauge ms" "created_total ms' = created_total ms"
    "terminated_total r ms' = terminated_total r ms" "all_terminated ms' = all_terminated ms"
  using assms unfolding other_calls_def by (auto simp: readings_append_other)

text \<open>What activity without the mutex may change, as a relation between states.\<close>

definition unlocked :: "supervisor \<Rightarrow> supervisor \<Rightarrow> bool" where
  "unlocked s t \<longleftrightarrow>
     opts t = opts s \<and> sup_logger t = sup_logger s \<and> sessions t = sessions s \<and>
     userAgent t = userAgent s \<and> draining t = draining s \<and> mtx t = mtx s \<and>
     other_calls (metrics s) (metrics t) \<and>
     list_all2 ctx_le (ctxs s) (ctxs t) \<and> list_all2 launch_le (launches s) (launches t) \<and>
     now s \<le> now t"

lemma unlocked_refl [simp]: "unlocked s s"
  by (simp add: unlocked_def list_all2_refl)

lemma unlocked_trans:
  assumes "unlocked s t" "unlocked t u"
  shows "unlocked s u"
proof -
  have "list_all2 ctx_le (ctxs s) (ctxs u)"
    using assms by (intro list_all2_trans [OF ctx_le_trans]) (auto simp: unlocked_def)
  moreover have "list_all2 launch_le (launches s) (launches u)"
    using assms by (intro list_all2_trans [OF launch_le_trans]) (auto simp: unlocked_def)
  moreover have "other_calls (metrics s) (metrics u)"
    using assms by (auto simp: unlocked_def intro: other_calls_trans)
  ultimately show ?thesis using assms by (simp add: unlocked_def)
qed

lemma list_all2_update_self:
  "(\<And>x. P x x) \<Longrightarrow> (i < length xs \<Longrightarrow> P (xs ! i) y) \<Longrightarrow> list_all2 P xs (xs[i := y])"
  by (simp add: list_all2_conv_all_nth) (metis nth_list_update_eq nth_list_update_neq)

lemma oom_check_ops: "other_calls (metrics s) (metrics (oom_check l fs s))"
  by (simp add: oom_check_def Let_def split: sum.split)

lemma observe_rss_ops: "other_calls ms (metrics s) \<Longrightarrow> other_calls ms (metrics (observe_rss r s))"
  by (simp add: observe_rss_def split: option.split)

lemma launch_finish_ops: "other_calls (metrics s) (metrics (launch_finish e i s))"
proof (cases "l_phase (launches s ! i)")
  case (Running cmd d t0)
  show ?thesis
    by (simp add: launch_finish_eq [OF Running] Let_def launch_deferred_metrics launch_report_metrics
        observe_rss_ops oom_check_ops)
qed (simp_all add: launch_finish_idle)

lemma launch_begin_unlocked:
  "l_phase (launches s ! i) = Spawned \<Longrightarrow> unlocked s (launch_begin e i s)"
  by (simp add: unlocked_def list_all2_refl launch_begin_launches list_all2_update_self launch_le_def)

lemma launch_finish_unlocked: "unlocked s (launch_finish e i s)"
proof (cases "l_phase (launches s ! i)")
  case (Running cmd d t0)
  have "list_all2 launch_le (launches s) (launches (launch_finish e i s))"
    unfolding launch_finish_launches [OF Running]
    by (rule list_all2_update_self) (simp_all add: launch_le_def)
  then show ?thesis
    using launch_finish_ops [of s e i] by (simp add: unlocked_def list_all2_refl)
qed (simp_all add: launch_finish_idle)

lemma expire_unlocked: "unlocked s (expire c s)"
  by (simp add: unlocked_def expire_def list_all2_refl list_all2_update_self ctx_le_def)

text \<open>
  The contract of background activity, and what it gives for a whole sequence of events.
\<close>

locale background_activity =
  fixes act :: "'e \<Rightarrow> supervisor \<Rightarrow> supervisor"
  assumes act_unlocked: "unlocked s (act ev s)"
begin

lemma acts_unlocked: "unlocked s (fold act evs s)"
  by (induction evs arbitrary: s) (auto intro: unlocked_trans act_unlocked)

lemma acts_frame:
  "opts (fold act evs s) = opts s" "sup_logger (fold act evs s) = sup_logger s"
  "sessions (fold act evs s) = sessions s" "userAgent (fold act evs s) = userAgent s"
  "draining (fold act evs s) = draining s" "mtx (fold act evs s) = mtx s"
  using acts_unlocked [of s evs] by (simp_all add: unlocked_def)

lemma acts_readings:
  "active_gauge (metrics (fold act evs s)) = active_gauge (metrics s)"
  "created_total (metrics (fold act evs s)) = created_total (metrics s)"
  "terminated_total r (metrics (fold act evs s)) = terminated_total r (metrics s)"
  "all_terminated (metrics (fold act evs s)) = all_terminated (metrics s)"
  using acts_unlocked [of s evs] other_calls_readings by (auto simp: unlocked_def)

lemma acts_ctxs:
  "length (ctxs (fold act evs s)) = length (ctxs s)"
  "i < length (ctxs s) \<Longrightarrow> ctx_le (ctxs s ! i) (ctxs (fold act evs s) ! i)"
  using acts_unlocked [of s evs] by (auto simp: unlocked_def list_all2_conv_all_nth)

end

interpretation bg: background_activity happen
proof
  show "unlocked s (happen ev s)" for s ev
  proof (cases ev)
    case (Tick d)
    then show ?thesis by (simp add: unlocked_def list_all2_refl)
  qed (auto intro: launch_begin_unlocked launch_finish_unlocked expire_unlocked)
qed

section \<open>The user agent\<close>

lemma compute_end_simps [simp]:
  "sessions (snd (compute_end c res s)) = sessions s" "draining (snd (compute_end c res s)) = draining s"
  "mtx (snd (compute_end c res s)) = mtx s" "wg (snd (compute_end c res s)) = wg s"
  "metrics (snd (compute_end c res s)) = metrics s" "launches (snd (compute_end c res s)) = launches s"
  "opts (snd (compute_end c res s)) = opts s" "now (snd (compute_end c res s)) = now s"
  "crashed (snd (compute_end c res s)) = crashed s"
  "ctxs (snd (compute_end c res s)) = ctxs (cancel_ctx c s)"
  by (simp_all add: compute_end_def Let_def cancel_ctx_ctxs split: sum.split)

lemma patch_user_agent_first:
  assumes "Index ua ''Headless'' = Some k" and "\<not> Contains (drop (k + 8) ua) ''Headless''"
  shows "patch_user_agent ua extra =
    take k ua @ drop (k + 8) ua @ (if extra = [] then [] else CHR '' '' # extra)"
proof -
  have "k + Suc (length ''eadless'') = k + 8" by simp
  then have "ReplaceAll ua ''Headless'' [] = take k ua @ [] @ ReplaceAll (drop (k + 8) ua) ''Headless'' []"
    using ReplaceAll_first [OF assms(1), of "[]"] by (simp only:)
  then show ?thesis
    by (simp add: patch_user_agent_def Let_def ReplaceAll_absent [OF assms(2)])
qed

lemma patch_user_agent_pieces:
  "\<exists>ps. ua = Join ps ''Headless'' \<and> (\<forall>p \<in> set ps. \<not> Contains p ''Headless'') \<and>
     patch_user_agent ua extra = concat ps @ (if extra = [] then [] else '' '' @ extra)"
proof -
  obtain ps where "ua = Join ps ''Headless''" "\<forall>p \<in> set ps. \<not> Contains p ''Headless''"
    "ReplaceAll ua ''Headless'' [] = concat ps"
    using ReplaceAll_pieces [of ua "CHR ''H''" "''eadless''"] Join_empty by auto
  then show ?thesis by (intro exI [of _ ps]) (simp add: patch_user_agent_def Let_def)
qed

text \<open>
  C28.  Chromium does not call itself headless.  When the probe succeeds, the stored user agent is
  chromium's own with every occurrence of \<open>Headless\<close> cut out, however many there are, and the
  extra terms, if any, appended after a space: chromium's is some pieces, none of which contains
  \<open>Headless\<close>, joined by it, and the stored one begins with these pieces put together.  When the
  probe fails, the error wraps the one of the deadline and the user agent
  stays as it was.  Either way the browser started for it is cancelled and the session table, the
  drain flag and the mutex are as before.
\<close>

theorem ComputeUserAgent_spec:
  assumes "Version world (probe_deadline parent (now s)) (now s) = (res, t, n)"
    and "ComputeUserAgent evs parent world s = (err, s')"
  shows "(case res of
      Inl e \<Rightarrow> (\<exists>m. err = Some m \<and> errors_Is m DeadlineExceeded) \<and> userAgent s' = userAgent s
    | Inr vi \<Rightarrow> err = None \<and>
        (\<exists>ps. UserAgent vi = Join ps ''Headless'' \<and> (\<forall>p \<in> set ps. \<not> Contains p ''Headless'') \<and>
          userAgent s' = concat ps @ (if ExtraUATerms (opts s) = [] then [] else '' '' @ ExtraUATerms (opts s)))) \<and>
    length (ctxs s') = Suc (length (ctxs s)) \<and> ctx_err (ctxs s' ! length (ctxs s)) \<noteq> None \<and>
    sessions s' = sessions s \<and> draining s' = draining s \<and> mtx s' = mtx s"
proof -
  define s1 where "s1 = snd (compute_begin parent s)"
  define s2 where "s2 = (meanwhile evs s1)\<lparr>now := max t (now (meanwhile evs s1))\<rparr>"
  have s1: "opts s1 = opts s" "sessions s1 = sessions s" "draining s1 = draining s" "mtx s1 = mtx s"
    "userAgent s1 = userAgent s" "length (ctxs s1) = Suc (length (ctxs s))"
    by (simp_all add: s1_def compute_begin_def Let_def)
  have e: "(err, s') = compute_end (length (ctxs s)) res s2"
    using assms(1,2) by (simp add: ComputeUserAgent_def compute_begin_def Let_def s1_def s2_def)
  have s2: "opts s2 = opts s" "sessions s2 = sessions s" "draining s2 = draining s" "mtx s2 = mtx s"
    "userAgent s2 = userAgent s" "length (ctxs s2) = Suc (length (ctxs s))"
    by (simp_all add: s2_def bg.acts_frame bg.acts_ctxs s1)
  have s': "s' = snd (compute_end (length (ctxs s)) res s2)" using e [symmetric] by simp
  have c: "length (ctxs s') = Suc (length (ctxs s))" "ctx_err (ctxs s' ! length (ctxs s)) \<noteq> None"
    by (simp_all add: s' s2 cancel_ctx_ctxs del: not_None_eq)
  have f: "sessions s' = sessions s" "draining s' = draining s" "mtx s' = mtx s"
    by (simp_all add: s' s2)
  show ?thesis
  proof (cases res)
    case (Inl x)
    then have "deadline \<le> deadline \<Longrightarrow> errors_Is x DeadlineExceeded" for deadline :: instant
      using loop_result [OF assms(1) [unfolded Version_def]] by simp
    then show ?thesis using Inl e c f s2 by (auto simp: compute_end_def)
  next
    case (Inr vi)
    then have "err = None" "userAgent s' = patch_user_agent (UserAgent vi) (ExtraUATerms (opts s))"
      using e s2 by (simp_all add: compute_end_def Let_def)
    then show ?thesis using Inr c f patch_user_agent_pieces [of "UserAgent vi" "ExtraUATerms (opts s)"] by simp
  qed
qed

lemma sample_probe: "Version (sample_world 0) (t + 2 * second) t = (Inr sample_version, t + 1000000, 1)"
  by (simp add: Version_def Version_loop.simps sample_world_def version_answered, simp add: answered_def)

theorem ComputeUserAgent_spec_witness:
  "\<exists>s' ps. ComputeUserAgent [GoLaunch sample_mkdir 1] None (sample_world 0) sample_supervisor = (None, s') \<and>
     ''Mozilla/5.0 HeadlessChrome/124.0'' = Join ps ''Headless'' \<and>
     userAgent s' = concat ps @ '' GrafanaSyntheticMonitoring''"
proof -
  obtain err s' where c: "ComputeUserAgent [GoLaunch sample_mkdir 1] None (sample_world 0) sample_supervisor = (err, s')"
    by (cases "ComputeUserAgent [GoLaunch sample_mkdir 1] None (sample_world 0) sample_supervisor")
  have v: "Version (sample_world 0) (probe_deadline None (now sample_supervisor)) (now sample_supervisor) =
      (Inr sample_version, 1000000, 1)"
    using sample_probe [of 0] by (simp add: probe_deadline_def sample_supervisor_def New_def)
  have x: "ExtraUATerms (opts sample_supervisor) = ''GrafanaSyntheticMonitoring''"
    by (simp add: sample_supervisor_def New_def withDefaults_eq Let_def sample_options_def)
  have u: "UserAgent sample_version = ''Mozilla/5.0 HeadlessChrome/124.0''" by (simp add: sample_version_def)
  from ComputeUserAgent_spec [OF v c] x have "err = None"
    and "\<exists>ps. UserAgent sample_version = Join ps ''Headless'' \<and> userAgent s' = concat ps @ '' GrafanaSyntheticMonitoring''"
    by auto
  then show ?thesis using c unfolding u by auto
qed

end
