(* ===== verification/Supervisor.thy ===== *)
theory Supervisor
  imports Background Go_Numbers
begin

text \<open>
  Model of the API of the supervisor in \<open>internal/crocochrome/crocochrome.go\<close>: looking up,
  creating and deleting sessions, draining.  Every operation that takes the mutex is one
  function on the state; \<open>create\<close>, which keeps the mutex while it probes chromium, is a first and
  a last part with the events that happen in between.
\<close>

section \<open>Looking up\<close>

definition Session :: "string \<Rightarrow> supervisor \<Rightarrow> SessionInfo option" where
  "Session sid s = (case map_get (sessions s) sid of Some sess \<Rightarrow> Some (info sess) | None \<Rightarrow> None)"

definition Sessions :: "supervisor \<Rightarrow> string list" where
  "Sessions s = map_keys (sessions s)"

section \<open>Recording\<close>

definition setSessionActive :: "supervisor \<Rightarrow> supervisor" where
  "setSessionActive s = observe SessionsCreated_Inc (observe (SessionActive_Set 1) s)"

definition setSessionInactive :: "string \<Rightarrow> supervisor \<Rightarrow> supervisor" where
  "setSessionInactive reason s = observe (SessionsTerminated_Inc reason) (observe (SessionActive_Set 0) s)"

section \<open>Deleting\<close>

text \<open>\<open>delete\<close>, called with the mutex held.\<close>

definition delete :: "string \<Rightarrow> supervisor \<Rightarrow> bool \<times> supervisor" where
  "delete sessionID s =
     (case map_get (sessions s) sessionID of
        None \<Rightarrow> (False, s)
      | Some sess \<Rightarrow>
          (let s1 = log_at Debug (sup_logger s) ''cancelling context and deleting session''
                      [(''sessionID'', VStr sessionID)] s;
               s2 = cancel_ctx (cancel sess) s1;
               s3 = s2\<lparr>sessions := map_del sessionID (sessions s2)\<rparr>
           in (True, setSessionInactive TerminationReasonReplaced s3)))"

definition kill_one :: "string \<Rightarrow> supervisor \<Rightarrow> supervisor" where
  "kill_one sid s =
     snd (delete sid (log_at Error (sup_logger s) ''existing session found, killing'' [(''sessionID'', VStr sid)] s))"

text \<open>Removing entries of a Go map while ranging over it does not hide the others.\<close>

definition killExisting :: "supervisor \<Rightarrow> supervisor" where
  "killExisting s = fold kill_one (map_keys (sessions s)) s"

definition takeSession :: "string \<Rightarrow> string \<Rightarrow> supervisor \<Rightarrow> session option \<times> supervisor" where
  "takeSession sessionID reason s =
     (case map_get (sessions s) sessionID of
        None \<Rightarrow> (None, s)
      | Some sess \<Rightarrow>
          (let s1 = s\<lparr>sessions := map_del sessionID (sessions s)\<rparr>;
               s2 = setSessionInactive reason s1
           in (Some sess, cancel_ctx (cancel sess) s2)))"

definition log_process :: "attrs \<Rightarrow> processInfo \<Rightarrow> supervisor \<Rightarrow> supervisor" where
  "log_process lg p s =
     log_at Info lg ''chromium process memory''
       [(''pid'', VInt (PID p)), (''processType'', VStr (Type p)), (''rss'', VInt (RSS p)),
        (''peakRSS'', VInt (PeakRSS p))] s"

definition emitTeardownObservability :: "filesystem \<Rightarrow> procfs \<Rightarrow> session \<Rightarrow> supervisor \<Rightarrow> supervisor" where
  "emitTeardownObservability fs pf sess s =
     (if \<not> EnableProcessMetrics (opts s) then s
      else (let (processes, cgroupRSS, procErr) =
                  collectProcessMetrics fs pf (CgroupMemoryEventsPath (opts s)) (ProcFSRoot (opts s));
                s1 = (case procErr of
                        None \<Rightarrow> s
                      | Some e \<Rightarrow> log_at Debug (logger sess) ''could not collect process metrics'' [(''err'', VErr e)] s);
                s2 = fold (log_process (logger sess)) processes s1
            in log_at Info (logger sess) ''chromium session memory''
                 [(''cgroupRSS'', VInt cgroupRSS), (''processCount'', VInt (int (length processes)))] s2))"

definition deleteWithReason :: "filesystem \<Rightarrow> procfs \<Rightarrow> string \<Rightarrow> string \<Rightarrow> supervisor \<Rightarrow> bool \<times> supervisor" where
  "deleteWithReason fs pf sessionID reason s =
     (case takeSession sessionID reason s of
        (None, s1) \<Rightarrow> (False, s1)
      | (Some sess, s1) \<Rightarrow> (True, emitTeardownObservability fs pf sess s1))"

definition Delete :: "filesystem \<Rightarrow> procfs \<Rightarrow> string \<Rightarrow> supervisor \<Rightarrow> bool \<times> supervisor" where
  "Delete fs pf sessionID s = deleteWithReason fs pf sessionID TerminationReasonDeleted s"

text \<open>The function \<open>create\<close> registers with \<open>AfterFunc\<close> for a context.\<close>

definition after_done :: "filesystem \<Rightarrow> procfs \<Rightarrow> ctx_id \<Rightarrow> supervisor \<Rightarrow> supervisor" where
  "after_done fs pf c s =
     (case after_func (ctxs s ! c) of
        None \<Rightarrow> s
      | Some (sid, lg) \<Rightarrow>
          (let s1 = s\<lparr>ctxs := (ctxs s)[c := (ctxs s ! c)\<lparr>after_ran := True\<rparr>]\<rparr>;
               s2 = log_at Debug lg ''context cancelled, removing session from the map'' [] s1
           in snd (deleteWithReason fs pf sid TerminationReasonTimeout s2)))"

section \<open>Draining\<close>

definition Drain :: "supervisor \<Rightarrow> supervisor" where
  "Drain s = s\<lparr>draining := True\<rparr>"

text \<open>\<open>Wait\<close> returns in the states where the counter of the \<open>WaitGroup\<close> is zero.\<close>

definition Wait_returns :: "supervisor \<Rightarrow> bool" where
  "Wait_returns s \<longleftrightarrow> wg s = 0"

definition SessionTimeout :: "supervisor \<Rightarrow> duration" where
  "SessionTimeout s = SessionTimeout_opt (opts s)"

section \<open>Creating\<close>

definition IDLen :: nat where "IDLen = 12"

text \<open>\<open>rand.Read\<close> fills the buffer or fails; its bytes are a parameter.\<close>

definition randString :: "go_error + (nat \<Rightarrow> 8 word) \<Rightarrow> string outcome" where
  "randString rnd =
     (case rnd of
        Inl err \<Rightarrow> Panic ''error reading random bytes''
      | Inr byte \<Rightarrow> Return (EncodeToString (map byte [0 ..< IDLen div 2])))"

text \<open>
  \<open>range\<close> visits the metadata in an order Go leaves open; here it is that of the list, which
  stands for any of them.
\<close>

definition session_logger :: "string \<Rightarrow> CheckInfo \<Rightarrow> supervisor \<Rightarrow> attrs" where
  "session_logger sid checkInfo s =
     sup_logger s @ [(''sessionID'', VStr sid)] @
       map (\<lambda>(k, v). (k, attr_of v)) (filter (\<lambda>(k, v). k \<in> set allowedLabels) (Metadata checkInfo))"

record create_env =
  env_rand :: "go_error + (nat \<Rightarrow> 8 word)"
  env_files :: filesystem
  env_world :: "nat \<Rightarrow> attempt"
  env_events :: "event list"

datatype beginning = Refused go_error | Panicked string | Probing pending

definition create_begin :: "create_env \<Rightarrow> CheckInfo \<Rightarrow> bool \<Rightarrow> supervisor \<Rightarrow> beginning \<times> supervisor" where
  "create_begin env checkInfo ifFree s =
     (if draining s then (Refused ErrDraining, s)
      else if ifFree \<and> 0 < length (sessions s) then (Refused ErrSessionExists, s)
      else (let s1 = killExisting s
            in (case randString (env_rand env) of
                  Panic m \<Rightarrow> (Panicked m, s1)
                | Return sid \<Rightarrow>
                    (let lg = session_logger sid checkInfo s1;
                         c = length (ctxs s1);
                         oom = readOOMKillCount (env_files env) (CgroupMemoryEventsPath (opts s1));
                         oomBefore = (case oom of Inl _ \<Rightarrow> 0 | Inr n \<Rightarrow> n);
                         oomBeforeErr = (case oom of Inl e \<Rightarrow> Some e | Inr _ \<Rightarrow> None);
                         s2 = (case oomBeforeErr of
                                 None \<Rightarrow> s1
                               | Some e \<Rightarrow> log_at Warn lg ''could not read cgroup OOM kill count before session''
                                             [(''err'', VErr e)] s1);
                         p = \<lparr>p_id = sid, p_ctx = c, p_logger = lg, p_start = now s2\<rparr>
                     in (Probing p,
                         s2\<lparr>ctxs := ctxs s2 @
                              [\<lparr>ctx_start = now s2, deadline = Some (now s2 + SessionTimeout_opt (opts s2)),
                                ctx_err = None, after_func = Some (sid, lg), after_ran = False\<rparr>],
                            wg := wg s2 + 1,
                            launches := launches s2 @
                              [\<lparr>l_ctx = c, l_logger = lg, l_oomBefore = oomBefore, l_oomBeforeErr = oomBeforeErr,
                                l_tracked = True, l_phase = Spawned\<rparr>],
                            mtx := Some p\<rparr>)))))"

definition create_end :: "pending \<Rightarrow> go_error + VersionInfo \<Rightarrow> supervisor \<Rightarrow> (go_error + SessionInfo) \<times> supervisor" where
  "create_end p res s =
     (case res of
        Inl err \<Rightarrow>
          (let s1 = log_at Error (p_logger p) ''could not get chromium info, cancelling session''
                      [(''err'', VErr err)] s;
               s2 = cancel_ctx (p_ctx p) s1
           in (Inl err, s2\<lparr>mtx := None\<rparr>))
      | Inr vi \<Rightarrow>
          (let si = \<lparr>ID = p_id p, ChromiumVersion = vi\<rparr>;
               s1 = s\<lparr>sessions := map_put (p_id p)
                        \<lparr>info = si, cancel = p_ctx p, logger = p_logger p\<rparr> (sessions s)\<rparr>;
               s2 = setSessionActive s1
           in (Inr si, s2\<lparr>mtx := None\<rparr>)))"

text \<open>The deadline of the probe of a pending call.\<close>

definition pending_deadline :: "pending \<Rightarrow> supervisor \<Rightarrow> instant" where
  "pending_deadline p s = probe_deadline (Some (p_start p + SessionTimeout_opt (opts s))) (p_start p)"

definition create ::
    "create_env \<Rightarrow> CheckInfo \<Rightarrow> bool \<Rightarrow> supervisor \<Rightarrow> (go_error + SessionInfo) outcome \<times> supervisor" where
  "create env checkInfo ifFree s =
     (case create_begin env checkInfo ifFree s of
        (Refused e, s1) \<Rightarrow> (Return (Inl e), s1)
      | (Panicked m, s1) \<Rightarrow> (Panic m, s1)
      | (Probing p, s1) \<Rightarrow>
          (let (res, t, n) = Version (env_world env) (pending_deadline p s1) (p_start p);
               s2 = meanwhile (env_events env) s1;
               (r, s3) = create_end p res (s2\<lparr>now := max t (now s2)\<rparr>)
           in (Return r, s3)))"

definition Create :: "create_env \<Rightarrow> CheckInfo \<Rightarrow> supervisor \<Rightarrow> (go_error + SessionInfo) outcome \<times> supervisor" where
  "Create env checkInfo s = create env checkInfo False s"

definition CreateIfFree :: "create_env \<Rightarrow> CheckInfo \<Rightarrow> supervisor \<Rightarrow> (go_error + SessionInfo) outcome \<times> supervisor" where
  "CreateIfFree env checkInfo s = create env checkInfo True s"

section \<open>What the operations leave alone\<close>

lemma setSessionActive_frame [simp]:
  "opts (setSessionActive s) = opts s" "sup_logger (setSessionActive s) = sup_logger s"
  "sessions (setSessionActive s) = sessions s" "userAgent (setSessionActive s) = userAgent s"
  "wg (setSessionActive s) = wg s" "draining (setSessionActive s) = draining s"
  "mtx (setSessionActive s) = mtx s" "ctxs (setSessionActive s) = ctxs s"
  "launches (setSessionActive s) = launches s" "logs (setSessionActive s) = logs s"
  "os_calls (setSessionActive s) = os_calls s" "crashed (setSessionActive s) = crashed s"
  "now (setSessionActive s) = now s"
  by (simp_all add: setSessionActive_def)

lemma setSessionInactive_frame [simp]:
  "opts (setSessionInactive r s) = opts s" "sup_logger (setSessionInactive r s) = sup_logger s"
  "sessions (setSessionInactive r s) = sessions s" "userAgent (setSessionInactive r s) = userAgent s"
  "wg (setSessionInactive r s) = wg s" "draining (setSessionInactive r s) = draining s"
  "mtx (setSessionInactive r s) = mtx s" "ctxs (setSessionInactive r s) = ctxs s"
  "launches (setSessionInactive r s) = launches s" "logs (setSessionInactive r s) = logs s"
  "os_calls (setSessionInactive r s) = os_calls s" "crashed (setSessionInactive r s) = crashed s"
  "now (setSessionInactive r s) = now s"
  by (simp_all add: setSessionInactive_def)

lemma set_metrics [simp]:
  "metrics (setSessionActive s) = SessionsCreated_Inc # SessionActive_Set 1 # metrics s"
  "metrics (setSessionInactive r s) = SessionsTerminated_Inc r # SessionActive_Set 0 # metrics s"
  by (simp_all add: setSessionActive_def setSessionInactive_def)

lemma kill_one_frame [simp]:
  "opts (kill_one sid s) = opts s" "sup_logger (kill_one sid s) = sup_logger s"
  "userAgent (kill_one sid s) = userAgent s" "wg (kill_one sid s) = wg s"
  "draining (kill_one sid s) = draining s" "mtx (kill_one sid s) = mtx s"
  "launches (kill_one sid s) = launches s" "os_calls (kill_one sid s) = os_calls s"
  "crashed (kill_one sid s) = crashed s" "now (kill_one sid s) = now s"
  by (simp_all add: kill_one_def delete_def Let_def split: option.split)

lemma takeSession_frame [simp]:
  "opts (snd (takeSession sid r s)) = opts s" "sup_logger (snd (takeSession sid r s)) = sup_logger s"
  "userAgent (snd (takeSession sid r s)) = userAgent s" "wg (snd (takeSession sid r s)) = wg s"
  "draining (snd (takeSession sid r s)) = draining s" "mtx (snd (takeSession sid r s)) = mtx s"
  "launches (snd (takeSession sid r s)) = launches s" "logs (snd (takeSession sid r s)) = logs s"
  "os_calls (snd (takeSession sid r s)) = os_calls s" "crashed (snd (takeSession sid r s)) = crashed s"
  "now (snd (takeSession sid r s)) = now s"
  by (simp_all add: takeSession_def Let_def split: option.split)

lemma log_processes_frame [simp]:
  "opts (fold (log_process lg) ps s) = opts s"
  "sup_logger (fold (log_process lg) ps s) = sup_logger s"
  "sessions (fold (log_process lg) ps s) = sessions s"
  "metrics (fold (log_process lg) ps s) = metrics s"
  "userAgent (fold (log_process lg) ps s) = userAgent s" "wg (fold (log_process lg) ps s) = wg s"
  "draining (fold (log_process lg) ps s) = draining s" "mtx (fold (log_process lg) ps s) = mtx s"
  "ctxs (fold (log_process lg) ps s) = ctxs s" "launches (fold (log_process lg) ps s) = launches s"
  "os_calls (fold (log_process lg) ps s) = os_calls s"
  "crashed (fold (log_process lg) ps s) = crashed s" "now (fold (log_process lg) ps s) = now s"
  by (induction ps arbitrary: s) (simp_all add: log_process_def)

lemma emitTeardown_frame [simp]:
  "opts (emitTeardownObservability fs pf sess s) = opts s"
  "sup_logger (emitTeardownObservability fs pf sess s) = sup_logger s"
  "sessions (emitTeardownObservability fs pf sess s) = sessions s"
  "metrics (emitTeardownObservability fs pf sess s) = metrics s"
  "userAgent (emitTeardownObservability fs pf sess s) = userAgent s"
  "wg (emitTeardownObservability fs pf sess s) = wg s"
  "draining (emitTeardownObservability fs pf sess s) = draining s"
  "mtx (emitTeardownObservability fs pf sess s) = mtx s"
  "ctxs (emitTeardownObservability fs pf sess s) = ctxs s"
  "launches (emitTeardownObservability fs pf sess s) = launches s"
  "os_calls (emitTeardownObservability fs pf sess s) = os_calls s"
  "crashed (emitTeardownObservability fs pf sess s) = crashed s"
  "now (emitTeardownObservability fs pf sess s) = now s"
  by (simp_all add: emitTeardownObservability_def Let_def case_prod_unfold split: option.split)

lemma deleteWithReason_frame [simp]:
  "opts (snd (deleteWithReason fs pf sid r s)) = opts s"
  "sup_logger (snd (deleteWithReason fs pf sid r s)) = sup_logger s"
  "userAgent (snd (deleteWithReason fs pf sid r s)) = userAgent s"
  "wg (snd (deleteWithReason fs pf sid r s)) = wg s"
  "draining (snd (deleteWithReason fs pf sid r s)) = draining s"
  "mtx (snd (deleteWithReason fs pf sid r s)) = mtx s"
  "launches (snd (deleteWithReason fs pf sid r s)) = launches s"
  "os_calls (snd (deleteWithReason fs pf sid r s)) = os_calls s"
  "crashed (snd (deleteWithReason fs pf sid r s)) = crashed s"
  "now (snd (deleteWithReason fs pf sid r s)) = now s"
  by (simp_all add: deleteWithReason_def case_prod_unfold split: option.split)

section \<open>Killing the existing sessions\<close>

lemma cancel_ctx_le: "list_all2 ctx_le (ctxs s) (ctxs (cancel_ctx c s))"
  by (simp add: cancel_ctx_ctxs list_all2_update_self list_all2_refl)

lemma cancel_ctx_done [simp]: "c < length (ctxs s) \<Longrightarrow> ctx_err (ctxs (cancel_ctx c s) ! c) \<noteq> None"
  by (simp add: cancel_ctx_ctxs del: not_None_eq)

lemma ctxs_le_done:
  "list_all2 ctx_le cs ds \<Longrightarrow> c < length cs \<Longrightarrow> ctx_err (cs ! c) \<noteq> None \<Longrightarrow> ctx_err (ds ! c) \<noteq> None"
  by (auto simp: list_all2_conv_all_nth ctx_le_def)

lemma map_del_absent: "map_get m k = None \<Longrightarrow> map_del k m = m"
  by (simp add: map_of_eq_None_iff)

lemma kill_one_present:
  assumes "map_get (sessions s) sid = Some sess"
  shows "sessions (kill_one sid s) = map_del sid (sessions s)"
    "ctxs (kill_one sid s) = ctxs (cancel_ctx (cancel sess) s)"
    "metrics (kill_one sid s) = SessionsTerminated_Inc TerminationReasonReplaced # SessionActive_Set 0 # metrics s"
  using assms by (simp_all add: kill_one_def delete_def Let_def cancel_ctx_ctxs)

lemma kill_one_sessions: "sessions (kill_one sid s) = map_del sid (sessions s)"
  by (simp add: kill_one_def delete_def Let_def map_del_absent split: option.split)

lemma kill_one_ctxs_le: "list_all2 ctx_le (ctxs s) (ctxs (kill_one sid s))"
  by (cases "map_get (sessions s) sid")
    (simp_all add: kill_one_present cancel_ctx_le, simp add: kill_one_def delete_def list_all2_refl)

text \<open>Killing a list of distinct sessions of the table, whatever their order.\<close>

lemma kill_all_sessions: "sessions (fold kill_one ks s) = fold map_del ks (sessions s)"
  by (induction ks arbitrary: s) (simp_all add: kill_one_sessions)

lemma kill_all_ctxs_le: "list_all2 ctx_le (ctxs s) (ctxs (fold kill_one ks s))"
proof (induction ks arbitrary: s)
  case (Cons k ks)
  show ?case
    using list_all2_trans [OF ctx_le_trans kill_one_ctxs_le Cons.IH [of "kill_one k s"]] by simp
qed (simp add: list_all2_refl)

lemma kill_all_done:
  assumes "k \<in> set ks" "map_get (sessions s) k = Some sess" "cancel sess < length (ctxs s)"
  shows "ctx_err (ctxs (fold kill_one ks s) ! cancel sess) \<noteq> None"
  using assms
proof (induction ks arbitrary: s)
  case (Cons h ks)
  have len: "length (ctxs (kill_one h s)) = length (ctxs s)"
    using kill_one_ctxs_le [of s h] by (simp add: list_all2_lengthD)
  show ?case
  proof (cases "h = k")
    case True
    have "ctx_err (ctxs (kill_one h s) ! cancel sess) \<noteq> None"
      unfolding True kill_one_present(2) [OF Cons.prems(2)] by (rule cancel_ctx_done [OF Cons.prems(3)])
    with ctxs_le_done [OF kill_all_ctxs_le [of "kill_one h s" ks]] Cons.prems(3) len
    show ?thesis by simp
  next
    case False
    then have "map_get (sessions (kill_one h s)) k = Some sess"
      using Cons.prems(2) by (simp add: kill_one_sessions smap.get_del)
    then show ?thesis using Cons.IH [of "kill_one h s"] Cons.prems False len by simp
  qed
qed simp

lemma kill_all_readings:
  assumes "distinct ks" "\<forall>k \<in> set ks. map_get (sessions s) k \<noteq> None"
  shows "terminated_total TerminationReasonReplaced (metrics (fold kill_one ks s)) =
      terminated_total TerminationReasonReplaced (metrics s) + length ks \<and>
    all_terminated (metrics (fold kill_one ks s)) = all_terminated (metrics s) + length ks \<and>
    created_total (metrics (fold kill_one ks s)) = created_total (metrics s) \<and>
    active_gauge (metrics (fold kill_one ks s)) = (if ks = [] then active_gauge (metrics s) else 0)"
  using assms
proof (induction ks arbitrary: s)
  case (Cons k ks)
  then obtain sess where k: "map_get (sessions s) k = Some sess" by auto
  have "\<forall>k' \<in> set ks. map_get (sessions (kill_one k s)) k' \<noteq> None"
    using Cons.prems by (auto simp: kill_one_sessions smap.get_del)
  with Cons.IH [of "kill_one k s"] Cons.prems(1) show ?case
    by (simp add: kill_one_present(3) [OF k])
qed simp

lemma kill_all_frame [simp]:
  "opts (fold kill_one ks s) = opts s" "sup_logger (fold kill_one ks s) = sup_logger s"
  "userAgent (fold kill_one ks s) = userAgent s" "wg (fold kill_one ks s) = wg s"
  "draining (fold kill_one ks s) = draining s" "mtx (fold kill_one ks s) = mtx s"
  "launches (fold kill_one ks s) = launches s" "os_calls (fold kill_one ks s) = os_calls s"
  "crashed (fold kill_one ks s) = crashed s" "now (fold kill_one ks s) = now s"
  by (induction ks arbitrary: s) simp_all

lemma killExisting_frame [simp]:
  "opts (killExisting s) = opts s" "sup_logger (killExisting s) = sup_logger s"
  "userAgent (killExisting s) = userAgent s" "wg (killExisting s) = wg s"
  "draining (killExisting s) = draining s" "mtx (killExisting s) = mtx s"
  "launches (killExisting s) = launches s" "os_calls (killExisting s) = os_calls s"
  "crashed (killExisting s) = crashed s" "now (killExisting s) = now s"
  by (simp_all add: killExisting_def)

lemma killExisting_sessions [simp]: "sessions (killExisting s) = []"
proof -
  have "\<forall>k. map_get (sessions (killExisting s)) k = None"
    by (simp add: killExisting_def kill_all_sessions smap.del_all_keys)
  then show ?thesis by (simp only: map_get_None_Nil)
qed

lemma killExisting_ctxs_le: "list_all2 ctx_le (ctxs s) (ctxs (killExisting s))"
  by (simp add: killExisting_def kill_all_ctxs_le)

lemma length_killExisting [simp]: "length (ctxs (killExisting s)) = length (ctxs s)"
  using killExisting_ctxs_le [of s] by (simp add: list_all2_lengthD)

lemma killExisting_done:
  "map_get (sessions s) k = Some sess \<Longrightarrow> cancel sess < length (ctxs s) \<Longrightarrow>
   ctx_err (ctxs (killExisting s) ! cancel sess) \<noteq> None"
  unfolding killExisting_def by (rule kill_all_done) (auto simp: smap.keys_get)

lemma killExisting_readings:
  assumes "map_ok (sessions s)"
  shows "terminated_total TerminationReasonReplaced (metrics (killExisting s)) =
      terminated_total TerminationReasonReplaced (metrics s) + length (sessions s)"
    "all_terminated (metrics (killExisting s)) = all_terminated (metrics s) + length (sessions s)"
    "created_total (metrics (killExisting s)) = created_total (metrics s)"
    "active_gauge (metrics (killExisting s)) = (if sessions s = [] then active_gauge (metrics s) else 0)"
proof -
  have "\<forall>k \<in> set (map_keys (sessions s)). map_get (sessions s) k \<noteq> None"
    by (simp add: smap.keys_get)
  note r = kill_all_readings [OF smap.keys_distinct [OF assms] this]
  have l: "length (map_keys (sessions s)) = length (sessions s)" "map_keys (sessions s) = [] \<longleftrightarrow> sessions s = []"
    by (simp_all add: map_keys_def)
  show "terminated_total TerminationReasonReplaced (metrics (killExisting s)) =
      terminated_total TerminationReasonReplaced (metrics s) + length (sessions s)"
    "all_terminated (metrics (killExisting s)) = all_terminated (metrics s) + length (sessions s)"
    "created_total (metrics (killExisting s)) = created_total (metrics s)"
    "active_gauge (metrics (killExisting s)) = (if sessions s = [] then active_gauge (metrics s) else 0)"
    using r unfolding killExisting_def l by blast+
qed

text \<open>
  Making room.  Whatever the number of sessions in the table, and in whatever order the map
  yields them, \<open>killExisting\<close> leaves an empty table, the context of every session that was in it
  done, one \<open>replaced\<close> termination counted for each, and the gauge at zero if there was any.
\<close>

theorem killExisting_spec:
  assumes "map_ok (sessions s)" and "s' = killExisting s"
  shows "sessions s' = [] \<and>
    (\<forall>k sess. map_get (sessions s) k = Some sess \<longrightarrow> cancel sess < length (ctxs s) \<longrightarrow>
       ctx_err (ctxs s' ! cancel sess) \<noteq> None) \<and>
    terminated_total TerminationReasonReplaced (metrics s') =
      terminated_total TerminationReasonReplaced (metrics s) + length (sessions s) \<and>
    created_total (metrics s') = created_total (metrics s) \<and>
    (sessions s \<noteq> [] \<longrightarrow> active_gauge (metrics s') = 0)"
  unfolding assms(2) by (intro conjI allI impI) (simp_all add: killExisting_readings assms(1) killExisting_done del: not_None_eq)

definition sample_session :: "ctx_id \<Rightarrow> string \<Rightarrow> session" where
  "sample_session c sid =
     \<lparr>info = \<lparr>ID = sid, ChromiumVersion = sample_version\<rparr>, cancel = c, logger = [(''sessionID'', VStr sid)]\<rparr>"

definition two_sessions :: supervisor where
  "two_sessions = sample_supervisor\<lparr>ctxs := [sample_ctx, sample_ctx],
     sessions := [(''a'', sample_session 0 ''a''), (''b'', sample_session 1 ''b'')]\<rparr>"

lemma two_sessions_simps [simp]:
  "sessions two_sessions = [(''a'', sample_session 0 ''a''), (''b'', sample_session 1 ''b'')]"
  "ctxs two_sessions = [sample_ctx, sample_ctx]" "metrics two_sessions = []"
  "draining two_sessions = False" "mtx two_sessions = None"
  by (simp_all add: two_sessions_def sample_supervisor_def New_def)

theorem killExisting_spec_witness:
  "sessions (killExisting two_sessions) = [] \<and> ctx_err (ctxs (killExisting two_sessions) ! 1) \<noteq> None \<and>
   terminated_total ''replaced'' (metrics (killExisting two_sessions)) = 2"
proof -
  have ok: "map_ok (sessions two_sessions)" by (simp add: map_ok_def)
  have b: "map_get (sessions two_sessions) ''b'' = Some (sample_session 1 ''b'')" by simp
  have c: "cancel (sample_session 1 ''b'') = 1" by (simp add: sample_session_def)
  have "ctx_err (ctxs (killExisting two_sessions) ! 1) \<noteq> None"
    using killExisting_spec [OF ok refl, THEN conjunct2, THEN conjunct1, rule_format, OF b]
    unfolding c by simp
  then show ?thesis
    using killExisting_spec [OF ok refl] by (simp add: TerminationReasonReplaced_def)
qed

section \<open>Deleting one session\<close>

lemma deleteWithReason_absent:
  "map_get (sessions s) sid = None \<Longrightarrow> deleteWithReason fs pf sid r s = (False, s)"
  by (simp add: deleteWithReason_def takeSession_def)

lemma deleteWithReason_present:
  assumes "map_get (sessions s) sid = Some sess"
  shows "fst (deleteWithReason fs pf sid r s)"
    "sessions (snd (deleteWithReason fs pf sid r s)) = map_del sid (sessions s)"
    "ctxs (snd (deleteWithReason fs pf sid r s)) = ctxs (cancel_ctx (cancel sess) s)"
    "metrics (snd (deleteWithReason fs pf sid r s)) = SessionsTerminated_Inc r # SessionActive_Set 0 # metrics s"
  using assms by (simp_all add: deleteWithReason_def takeSession_def Let_def cancel_ctx_ctxs)

text \<open>
  C9.  Deleting a session.  \<open>Delete\<close> reports whether the session existed.  If it did not, nothing
  changes.  If it did, it is gone and every other session is as before, its context is done, the
  gauge is zero and exactly one \<open>deleted\<close> termination is counted.  A second \<open>Delete\<close> finds nothing.
\<close>

theorem Delete_spec:
  assumes "Delete fs pf sid s = (found, s')"
  shows "(found \<longleftrightarrow> sid \<in> set (Sessions s)) \<and> (\<not> found \<longrightarrow> s' = s) \<and>
    (\<forall>k. Session k s' = (if k = sid then None else Session k s)) \<and>
    (found \<longrightarrow> active_gauge (metrics s') = 0 \<and>
       terminated_total TerminationReasonDeleted (metrics s') =
         Suc (terminated_total TerminationReasonDeleted (metrics s)) \<and>
       all_terminated (metrics s') = Suc (all_terminated (metrics s))) \<and>
    (\<forall>sess. map_get (sessions s) sid = Some sess \<longrightarrow> cancel sess < length (ctxs s) \<longrightarrow>
       ctx_err (ctxs s' ! cancel sess) \<noteq> None) \<and>
    Delete fs' pf' sid s' = (False, s')"
proof (cases "map_get (sessions s) sid")
  case None
  then have "found = False" "s' = s" using assms by (simp_all add: Delete_def deleteWithReason_absent)
  then show ?thesis
    using None by (simp add: Sessions_def smap.keys_get Session_def Delete_def deleteWithReason_absent)
next
  case (Some sess)
  note d = deleteWithReason_present [OF Some, of fs pf TerminationReasonDeleted]
  have f: found and s': "s' = snd (deleteWithReason fs pf sid TerminationReasonDeleted s)"
    using d(1) assms by (simp_all add: Delete_def)
  have "map_get (sessions s') sid = None" by (simp add: s' d smap.get_del)
  then have "Delete fs' pf' sid s' = (False, s')" by (simp add: Delete_def deleteWithReason_absent)
  moreover have "Session k s' = (if k = sid then None else Session k s)" for k
    by (simp add: Session_def s' d smap.get_del)
  ultimately show ?thesis
    using f Some by (simp add: s' d Sessions_def smap.keys_get del: not_None_eq)
qed

theorem Delete_spec_witness:
  "\<exists>s'. Delete (sample_fs ''/f'' []) sample_procfs ''a'' two_sessions = (True, s') \<and>
     Session ''a'' s' = None \<and> Session ''b'' s' = Session ''b'' two_sessions \<and>
     terminated_total ''deleted'' (metrics s') = 1"
proof -
  obtain f s' where d: "Delete (sample_fs ''/f'' []) sample_procfs ''a'' two_sessions = (f, s')"
    by (cases "Delete (sample_fs ''/f'' []) sample_procfs ''a'' two_sessions")
  show ?thesis
    using Delete_spec [OF d] d by (simp add: Sessions_def TerminationReasonDeleted_def)
qed

section \<open>Creating a session\<close>

lemma create_begin_cases:
  obtains (draining) "draining s" "create_begin env ci f s = (Refused ErrDraining, s)"
  | (occupied) "\<not> draining s" "f" "sessions s \<noteq> []" "create_begin env ci f s = (Refused ErrSessionExists, s)"
  | (panicked) m where "\<not> draining s" "f \<longrightarrow> sessions s = []" "randString (env_rand env) = Panic m"
      "create_begin env ci f s = (Panicked m, killExisting s)"
  | (probing) p s1 where "\<not> draining s" "f \<longrightarrow> sessions s = []" "randString (env_rand env) = Return (p_id p)"
      "create_begin env ci f s = (Probing p, s1)"
proof (cases "draining s \<or> (f \<and> sessions s \<noteq> [])")
  case True
  then show thesis using draining occupied by (auto simp: create_begin_def)
next
  case False
  show thesis
  proof (cases "randString (env_rand env)")
    case (Return sid)
    then show thesis using False by (intro probing) (auto simp: create_begin_def Let_def)
  next
    case (Panic m)
    then show thesis using False by (intro panicked) (auto simp: create_begin_def Let_def)
  qed
qed

text \<open>The state while a call probes chromium.\<close>

lemma create_begin_probing:
  assumes "create_begin env ci f s = (Probing p, s1)"
  shows "\<not> draining s" "f \<longrightarrow> sessions s = []" "randString (env_rand env) = Return (p_id p)"
    "p_ctx p = length (ctxs s)" "p_logger p = session_logger (p_id p) ci s" "p_start p = now s"
    "opts s1 = opts s" "sup_logger s1 = sup_logger s" "sessions s1 = []"
    "metrics s1 = metrics (killExisting s)" "userAgent s1 = userAgent s" "wg s1 = wg s + 1"
    "draining s1 = draining s" "mtx s1 = Some p" "crashed s1 = crashed s" "now s1 = now s"
    "os_calls s1 = os_calls s"
    "ctxs s1 = ctxs (killExisting s) @
       [\<lparr>ctx_start = now s, deadline = Some (now s + SessionTimeout_opt (opts s)), ctx_err = None,
         after_func = Some (p_id p, p_logger p), after_ran = False\<rparr>]"
    "\<exists>l. launches s1 = launches s @ [l] \<and> l_ctx l = p_ctx p \<and> l_tracked l \<and> l_phase l = Spawned \<and>
       l_logger l = p_logger p"
proof -
  define oom where "oom = readOOMKillCount (env_files env) (CgroupMemoryEventsPath (opts s))"
  have r: "\<not> draining s" "\<not> (f \<and> sessions s \<noteq> [])"
    using assms by (auto simp: create_begin_def split: if_splits)
  obtain sid where sid: "randString (env_rand env) = Return sid"
    using assms r by (cases "randString (env_rand env)") (auto simp: create_begin_def Let_def)
  define lg where "lg = session_logger sid ci s"
  define u where "u = (case oom of Inr _ \<Rightarrow> killExisting s
    | Inl e \<Rightarrow> log_at Warn lg ''could not read cgroup OOM kill count before session'' [(''err'', VErr e)] (killExisting s))"
  have u: "opts u = opts s" "sup_logger u = sup_logger s" "sessions u = []" "metrics u = metrics (killExisting s)"
    "userAgent u = userAgent s" "wg u = wg s" "draining u = draining s" "crashed u = crashed s" "now u = now s"
    "os_calls u = os_calls s" "ctxs u = ctxs (killExisting s)" "launches u = launches s"
    by (simp_all add: u_def split: sum.split)
  have p: "p = \<lparr>p_id = sid, p_ctx = length (ctxs s), p_logger = lg, p_start = now s\<rparr>"
    and s1: "s1 = u\<lparr>ctxs := ctxs u @
        [\<lparr>ctx_start = now s, deadline = Some (now s + SessionTimeout_opt (opts s)),
          ctx_err = None, after_func = Some (sid, lg), after_ran = False\<rparr>],
      wg := wg u + 1,
      launches := launches u @
        [\<lparr>l_ctx = length (ctxs s), l_logger = lg, l_oomBefore = (case oom of Inl _ \<Rightarrow> 0 | Inr n \<Rightarrow> n),
          l_oomBeforeErr = (case oom of Inl e \<Rightarrow> Some e | Inr _ \<Rightarrow> None),
          l_tracked = True, l_phase = Spawned\<rparr>],
      mtx := Some p\<rparr>"
    using assms r sid
    by (cases oom; simp add: create_begin_def Let_def lg_def u_def session_logger_def oom_def [symmetric])+
  show "\<not> draining s" "f \<longrightarrow> sessions s = []" using r by auto
  show "randString (env_rand env) = Return (p_id p)"
    "p_ctx p = length (ctxs s)" "p_logger p = session_logger (p_id p) ci s" "p_start p = now s"
    by (simp_all add: p sid lg_def)
  show "opts s1 = opts s" "sup_logger s1 = sup_logger s" "sessions s1 = []"
    "metrics s1 = metrics (killExisting s)" "userAgent s1 = userAgent s" "wg s1 = wg s + 1"
    "draining s1 = draining s" "mtx s1 = Some p" "crashed s1 = crashed s" "now s1 = now s"
    "os_calls s1 = os_calls s"
    "ctxs s1 = ctxs (killExisting s) @
       [\<lparr>ctx_start = now s, deadline = Some (now s + SessionTimeout_opt (opts s)), ctx_err = None,
         after_func = Some (p_id p, p_logger p), after_ran = False\<rparr>]"
    "\<exists>l. launches s1 = launches s @ [l] \<and> l_ctx l = p_ctx p \<and> l_tracked l \<and> l_phase l = Spawned \<and>
       l_logger l = p_logger p"
    by (simp_all add: s1 u) (simp_all add: p)
qed

lemma create_end_frame [simp]:
  "opts (snd (create_end p res s)) = opts s" "sup_logger (snd (create_end p res s)) = sup_logger s"
  "userAgent (snd (create_end p res s)) = userAgent s" "wg (snd (create_end p res s)) = wg s"
  "draining (snd (create_end p res s)) = draining s" "mtx (snd (create_end p res s)) = None"
  "launches (snd (create_end p res s)) = launches s" "os_calls (snd (create_end p res s)) = os_calls s"
  "crashed (snd (create_end p res s)) = crashed s" "now (snd (create_end p res s)) = now s"
  by (simp_all add: create_end_def Let_def split: sum.split)

lemma create_end_Inl [simp]:
  "fst (create_end p (Inl err) s) = Inl err"
  "sessions (snd (create_end p (Inl err) s)) = sessions s"
  "metrics (snd (create_end p (Inl err) s)) = metrics s"
  "ctxs (snd (create_end p (Inl err) s)) = ctxs (cancel_ctx (p_ctx p) s)"
  by (simp_all add: create_end_def Let_def cancel_ctx_ctxs)

lemma create_end_Inr [simp]:
  "fst (create_end p (Inr vi) s) = Inr \<lparr>ID = p_id p, ChromiumVersion = vi\<rparr>"
  "sessions (snd (create_end p (Inr vi) s)) =
     map_put (p_id p)
       \<lparr>info = \<lparr>ID = p_id p, ChromiumVersion = vi\<rparr>, cancel = p_ctx p, logger = p_logger p\<rparr> (sessions s)"
  "metrics (snd (create_end p (Inr vi) s)) = SessionsCreated_Inc # SessionActive_Set 1 # metrics s"
  "ctxs (snd (create_end p (Inr vi) s)) = ctxs s"
  by (simp_all add: create_end_def Let_def)

lemma Version_error:
  "Version_loop world dl i t0 = (Inl e, t, n) \<Longrightarrow>
   e = Errorf ''retries exhausted trying to reach chromium: %w'' [] (Some DeadlineExceeded)"
proof (induction world dl i t0 rule: Version_loop.induct)
  case (1 world dl i t0)
  from "1.prems" show ?case
  proof (cases rule: loop_cases)
    case (retry e')
    have "\<not> dl \<le> t0" using retry(1) by simp
    from "1.IH" [OF this refl refl retry(2) retry(3)] show ?thesis .
  qed auto
qed

text \<open>The three parts of a call that is not refused, put together.\<close>

lemma create_probing:
  assumes "create_begin env ci f s = (Probing p, s1)"
    and "Version (env_world env) (pending_deadline p s1) (p_start p) = (res, t, n)"
    and "u = (meanwhile (env_events env) s1)\<lparr>now := max t (now (meanwhile (env_events env) s1))\<rparr>"
  shows "create env ci f s = (Return (fst (create_end p res u)), snd (create_end p res u))"
  using assms by (simp add: create_def Let_def case_prod_unfold)

lemma probe_state:
  assumes "create_begin env ci f s = (Probing p, s1)"
    and "u = (meanwhile evs s1)\<lparr>now := t\<rparr>"
  shows "sessions u = []" "opts u = opts s" "draining u = draining s"
    "active_gauge (metrics u) = active_gauge (metrics (killExisting s))"
    "created_total (metrics u) = created_total (metrics (killExisting s))"
    "terminated_total r (metrics u) = terminated_total r (metrics (killExisting s))"
    "all_terminated (metrics u) = all_terminated (metrics (killExisting s))"
    "length (ctxs u) = Suc (length (ctxs s))"
    "ctx_le \<lparr>ctx_start = now s, deadline = Some (now s + SessionTimeout_opt (opts s)), ctx_err = None,
        after_func = Some (p_id p, p_logger p), after_ran = False\<rparr> (ctxs u ! p_ctx p)"
    "c < length (ctxs s) \<Longrightarrow> ctx_le (ctxs (killExisting s) ! c) (ctxs u ! c)"
proof -
  note b = create_begin_probing [OF assms(1)]
  have c: "ctx_le (ctxs s1 ! c) (ctxs u ! c)" if "c < Suc (length (ctxs s))" for c
    using bg.acts_ctxs(2) [of c s1 evs] that by (simp add: assms(2) b(18))
  show "sessions u = []" "opts u = opts s" "draining u = draining s"
    "active_gauge (metrics u) = active_gauge (metrics (killExisting s))"
    "created_total (metrics u) = created_total (metrics (killExisting s))"
    "terminated_total r (metrics u) = terminated_total r (metrics (killExisting s))"
    "all_terminated (metrics u) = all_terminated (metrics (killExisting s))"
    "length (ctxs u) = Suc (length (ctxs s))"
    by (simp_all add: assms(2) bg.acts_frame bg.acts_readings bg.acts_ctxs(1) b(7,9,10,13,18))
  show "ctx_le \<lparr>ctx_start = now s, deadline = Some (now s + SessionTimeout_opt (opts s)), ctx_err = None,
      after_func = Some (p_id p, p_logger p), after_ran = False\<rparr> (ctxs u ! p_ctx p)"
    using c [of "length (ctxs s)"] by (simp add: b(4,18) nth_append)
  show "ctx_le (ctxs (killExisting s) ! c) (ctxs u ! c)" if "c < length (ctxs s)"
    using c [of c] that by (simp add: b(18) nth_append)
qed

text \<open>
  C5.  When a creation is refused.  While draining, every creation fails with \<open>ErrDraining\<close>; with
  a session in the table, \<open>CreateIfFree\<close> fails with \<open>ErrSessionExists\<close>; both leave the whole state as
  it was, so no session is touched.  In every other case the result is a session, the error of
  an exhausted probe, or a panic when the system has no randomness: never one of the two errors.
\<close>

theorem create_refusals:
  "(draining s \<longrightarrow> Create env ci s = (Return (Inl ErrDraining), s) \<and>
      CreateIfFree env ci s = (Return (Inl ErrDraining), s)) \<and>
   (\<not> draining s \<and> Sessions s \<noteq> [] \<longrightarrow> CreateIfFree env ci s = (Return (Inl ErrSessionExists), s)) \<and>
   (\<not> draining s \<and> (ifFree \<longrightarrow> Sessions s = []) \<longrightarrow>
      (case fst (create env ci ifFree s) of
         Panic m \<Rightarrow> \<exists>e. env_rand env = Inl e
       | Return (Inl e) \<Rightarrow> e = Errorf ''retries exhausted trying to reach chromium: %w'' [] (Some DeadlineExceeded)
       | Return (Inr si) \<Rightarrow> randString (env_rand env) = Return (ID si)))"
proof (intro conjI impI)
  assume "draining s"
  then show "Create env ci s = (Return (Inl ErrDraining), s)" "CreateIfFree env ci s = (Return (Inl ErrDraining), s)"
    by (simp_all add: Create_def CreateIfFree_def create_def create_begin_def)
next
  assume "\<not> draining s \<and> Sessions s \<noteq> []"
  then show "CreateIfFree env ci s = (Return (Inl ErrSessionExists), s)"
    by (simp add: CreateIfFree_def create_def create_begin_def Sessions_def map_keys_def)
next
  assume "\<not> draining s \<and> (ifFree \<longrightarrow> Sessions s = [])"
  then have r: "\<not> draining s" "ifFree \<longrightarrow> sessions s = []" by (simp_all add: Sessions_def map_keys_def)
  show "case fst (create env ci ifFree s) of
         Panic m \<Rightarrow> \<exists>e. env_rand env = Inl e
       | Return (Inl e) \<Rightarrow> e = Errorf ''retries exhausted trying to reach chromium: %w'' [] (Some DeadlineExceeded)
       | Return (Inr si) \<Rightarrow> randString (env_rand env) = Return (ID si)"
  proof (cases rule: create_begin_cases [of s env ci ifFree])
    case (panicked m)
    then show ?thesis
      by (cases "env_rand env") (simp_all add: create_def randString_def)
  next
    case (probing p s1)
    obtain res t n where v: "Version (env_world env) (pending_deadline p s1) (p_start p) = (res, t, n)"
      by (cases "Version (env_world env) (pending_deadline p s1) (p_start p)")
    show ?thesis
      using create_probing [OF probing(4) v refl] probing(3) Version_error v
      by (cases res) (simp_all add: Version_def)
  qed (use r in auto)
qed

definition sample_env :: "(nat \<Rightarrow> attempt) \<Rightarrow> create_env" where
  "sample_env w = \<lparr>env_rand = Inr (\<lambda>i. of_nat i), env_files = sample_fs ''/f'' [],
     env_world = w, env_events = []\<rparr>"

abbreviation answering :: "nat \<Rightarrow> attempt" where
  "answering \<equiv> sample_world 0"

definition sample_check :: CheckInfo where
  "sample_check = \<lparr>CheckType = ''browser'',
     Metadata = [(''secret'', JStr ''x''), (''tenantID'', JStr ''3'')]\<rparr>"

theorem create_refusals_witness:
  "CreateIfFree (sample_env answering) sample_check two_sessions = (Return (Inl ErrSessionExists), two_sessions) \<and>
   Create (sample_env answering) sample_check (Drain two_sessions) = (Return (Inl ErrDraining), Drain two_sessions)"
  using create_refusals [of two_sessions "sample_env answering" sample_check]
    create_refusals [of "Drain two_sessions" "sample_env answering" sample_check]
  by (simp add: Sessions_def Drain_def)

lemma create_finished:
  assumes "create env ci f s = (Return r, s')" and "r \<noteq> Inl ErrDraining" and "r \<noteq> Inl ErrSessionExists"
  obtains p s1 res t n u where "create_begin env ci f s = (Probing p, s1)"
    "Version (env_world env) (pending_deadline p s1) (p_start p) = (res, t, n)"
    "u = (meanwhile (env_events env) s1)\<lparr>now := max t (now (meanwhile (env_events env) s1))\<rparr>"
    "r = fst (create_end p res u)" "s' = snd (create_end p res u)"
proof (cases rule: create_begin_cases [of s env ci f])
  case (probing p s1)
  obtain res t n where v: "Version (env_world env) (pending_deadline p s1) (p_start p) = (res, t, n)"
    by (cases "Version (env_world env) (pending_deadline p s1) (p_start p)")
  show thesis
    using that [OF probing(4) v refl] create_probing [OF probing(4) v refl] assms(1) by simp
qed (use assms in \<open>auto simp: create_def\<close>)

lemma probe_old_done:
  assumes "create_begin env ci f s = (Probing p, s1)" and "u = (meanwhile evs s1)\<lparr>now := t\<rparr>"
    and "map_get (sessions s) k = Some sess" and "cancel sess < length (ctxs s)"
  shows "ctx_err (ctxs u ! cancel sess) \<noteq> None"
  using probe_state(10) [OF assms(1,2,4)] killExisting_done [OF assms(3,4)] by (auto simp: ctx_le_def)

lemma randString_hex:
  "randString rnd = Return sid \<Longrightarrow> length sid = 12 \<and> (\<forall>c \<in> set sid. is_hex c)"
  using EncodeToString_hex by (auto simp: randString_def IDLen_def split: sum.splits)

text \<open>What a creation that succeeds has made.\<close>

lemma create_made:
  assumes "create env ci f s = (Return (Inr si), s')"
  obtains p s1 t vi u where "create_begin env ci f s = (Probing p, s1)"
    "u = (meanwhile (env_events env) s1)\<lparr>now := max t (now (meanwhile (env_events env) s1))\<rparr>"
    "si = \<lparr>ID = p_id p, ChromiumVersion = vi\<rparr>"
    "sessions s' = [(p_id p, \<lparr>info = si, cancel = p_ctx p, logger = session_logger (p_id p) ci s\<rparr>)]"
    "metrics s' = SessionsCreated_Inc # SessionActive_Set 1 # metrics u" "ctxs s' = ctxs u"
proof -
  obtain p s1 res t n u where b: "create_begin env ci f s = (Probing p, s1)"
    and v: "Version (env_world env) (pending_deadline p s1) (p_start p) = (res, t, n)"
    and u: "u = (meanwhile (env_events env) s1)\<lparr>now := max t (now (meanwhile (env_events env) s1))\<rparr>"
    and r: "Inr si = fst (create_end p res u)" "s' = snd (create_end p res u)"
    by (rule create_finished [OF assms sum.distinct(2) sum.distinct(2)])
  obtain vi where vi: "res = Inr vi" using r(1) by (cases res) auto
  show thesis
    using that [OF b u, of vi] r vi probe_state(1) [OF b u] create_begin_probing(5) [OF b] by simp
qed

text \<open>
  C4.  A session that is created.  When \<open>create\<close> returns a session, its id is twelve hexadecimal
  digits, it is the only session in the table and is found there under its id, the gauge is
  one, one creation is counted, and a \<open>replaced\<close> termination for each session that was there, whose
  contexts are done.  Its own context ends \<open>SessionTimeout\<close> after the call began, and its
  logger adds the session id and, of the check's metadata, the allowed labels only.
\<close>

theorem create_success:
  assumes "map_ok (sessions s)" and "create env ci ifFree s = (Return (Inr si), s')"
  shows "length (ID si) = 12 \<and> (\<forall>c \<in> set (ID si). is_hex c) \<and>
    Sessions s' = [ID si] \<and> Session (ID si) s' = Some si \<and>
    active_gauge (metrics s') = 1 \<and> created_total (metrics s') = Suc (created_total (metrics s)) \<and>
    terminated_total TerminationReasonReplaced (metrics s') =
      terminated_total TerminationReasonReplaced (metrics s) + length (Sessions s) \<and>
    (\<forall>k sess. map_get (sessions s) k = Some sess \<longrightarrow> cancel sess < length (ctxs s) \<longrightarrow>
       ctx_err (ctxs s' ! cancel sess) \<noteq> None) \<and>
    (\<exists>sess. map_get (sessions s') (ID si) = Some sess \<and>
       deadline (ctxs s' ! cancel sess) = Some (now s + SessionTimeout s) \<and>
       logger sess = sup_logger s @ (''sessionID'', VStr (ID si)) #
         map (\<lambda>(k, v). (k, attr_of v))
           (filter (\<lambda>(k, v). k \<in> {''regionID'', ''tenantID'', ''id''}) (Metadata ci)))"
proof -
  obtain p s1 t vi u where b: "create_begin env ci ifFree s = (Probing p, s1)"
    and u: "u = (meanwhile (env_events env) s1)\<lparr>now := max t (now (meanwhile (env_events env) s1))\<rparr>"
    and si: "si = \<lparr>ID = p_id p, ChromiumVersion = vi\<rparr>"
    and sess: "sessions s' = [(p_id p, \<lparr>info = si, cancel = p_ctx p, logger = session_logger (p_id p) ci s\<rparr>)]"
    and m: "metrics s' = SessionsCreated_Inc # SessionActive_Set 1 # metrics u" "ctxs s' = ctxs u"
    by (rule create_made [OF assms(2)])
  note begin_facts = create_begin_probing(3,4,5) [OF b] and u_facts = probe_state(1,2,3,4,5,6,7,8) [OF b u]
  have old: "ctx_err (ctxs s' ! cancel x) \<noteq> None"
    if "map_get (sessions s) k = Some x" "cancel x < length (ctxs s)" for k x
    using probe_old_done [OF b u that] m by simp
  have "deadline (ctxs s' ! p_ctx p) = Some (now s + SessionTimeout s)"
    using probe_state(9) [OF b u] by (simp add: ctx_le_def m SessionTimeout_def)
  moreover have "session_logger (p_id p) ci s = sup_logger s @ (''sessionID'', VStr (p_id p)) #
      map (\<lambda>(k, v). (k, attr_of v)) (filter (\<lambda>(k, v). k \<in> {''regionID'', ''tenantID'', ''id''}) (Metadata ci))"
    by (simp add: session_logger_def allowedLabels_def)
  ultimately show ?thesis
    using randString_hex [OF begin_facts(1)] old sess si m
    by (simp add: Sessions_def Session_def u_facts killExisting_readings [OF assms(1)] map_keys_def del: not_None_eq)
qed

text \<open>
  C14.  A creation that fails after it was not refused.  Chromium could not be reached: the error is
  returned, the table is empty, no creation is counted, the context of the new browser is
  done, and so is that of every session that was in the table, each counted as \<open>replaced\<close>.
\<close>

theorem create_failure:
  assumes "map_ok (sessions s)" and "create env ci ifFree s = (Return (Inl e), s')"
    and "e \<noteq> ErrDraining" and "e \<noteq> ErrSessionExists"
  shows "errors_Is e DeadlineExceeded \<and> Sessions s' = [] \<and>
    created_total (metrics s') = created_total (metrics s) \<and>
    terminated_total TerminationReasonReplaced (metrics s') =
      terminated_total TerminationReasonReplaced (metrics s) + length (Sessions s) \<and>
    length (ctxs s') = Suc (length (ctxs s)) \<and> ctx_err (ctxs s' ! length (ctxs s)) \<noteq> None \<and>
    (\<forall>k sess. map_get (sessions s) k = Some sess \<longrightarrow> cancel sess < length (ctxs s) \<longrightarrow>
       ctx_err (ctxs s' ! cancel sess) \<noteq> None)"
proof -
  have ne: "Inl e \<noteq> Inl ErrDraining" "Inl e \<noteq> Inl ErrSessionExists" using assms(3,4) by simp_all
  obtain p s1 res t n u where b: "create_begin env ci ifFree s = (Probing p, s1)"
    and v: "Version (env_world env) (pending_deadline p s1) (p_start p) = (res, t, n)"
    and u: "u = (meanwhile (env_events env) s1)\<lparr>now := max t (now (meanwhile (env_events env) s1))\<rparr>"
    and r: "Inl e = fst (create_end p res u)" "s' = snd (create_end p res u)"
    by (rule create_finished [OF assms(2) ne])
  have res: "res = Inl e" using r(1) by (cases res) auto
  note u_facts = probe_state(1,2,3,4,5,6,7,8) [OF b u] and c = create_begin_probing(4) [OF b]
  have ctxs: "ctxs s' = ctxs (cancel_ctx (p_ctx p) u)" using r(2) res by simp
  have old: "ctx_err (ctxs s' ! cancel x) \<noteq> None"
    if "map_get (sessions s) k = Some x" "cancel x < length (ctxs s)" for k x
    using ctxs_le_done [OF cancel_ctx_le, of "cancel x" u "p_ctx p"] probe_old_done [OF b u that] that(2)
    by (simp add: ctxs u_facts)
  have new: "ctx_err (ctxs s' ! length (ctxs s)) \<noteq> None" "length (ctxs s') = Suc (length (ctxs s))"
    using cancel_ctx_done [of "p_ctx p" u] by (simp_all add: ctxs c u_facts)
  have "errors_Is e DeadlineExceeded"
    using Version_error [OF v [unfolded Version_def res]] by simp
  then show ?thesis
    using old new r(2) res
    by (simp add: Sessions_def u_facts killExisting_readings [OF assms(1)] map_keys_def del: not_None_eq)
qed

lemma sample_begin:
  "\<exists>p s1. create_begin (sample_env w) sample_check False two_sessions = (Probing p, s1) \<and>
     pending_deadline p s1 = 0 + 2 * second \<and> p_start p = 0"
proof (cases rule: create_begin_cases [of two_sessions "sample_env w" sample_check False])
  case (probing p s1)
  note b = create_begin_probing(6,7) [OF probing(4)]
  have "SessionTimeout_opt (opts two_sessions) = 300 * second" "now two_sessions = 0"
    by (simp_all add: two_sessions_def sample_supervisor_def New_def withDefaults_eq Let_def sample_options_def
        defaultSessionTimeout_def)
  then show ?thesis using probing(4) b by (simp add: pending_deadline_def probe_deadline_def)
qed (simp_all add: sample_env_def randString_def)

lemma sample_create_ok:
  "\<exists>si s'. create (sample_env answering) sample_check False two_sessions = (Return (Inr si), s')"
proof -
  obtain p s1 where b: "create_begin (sample_env answering) sample_check False two_sessions = (Probing p, s1)"
    and d: "pending_deadline p s1 = 0 + 2 * second" "p_start p = 0"
    using sample_begin by blast
  have "Version (env_world (sample_env answering)) (pending_deadline p s1) (p_start p) =
      (Inr sample_version, 0 + 1000000, 1)"
    using sample_probe [of 0] by (simp only: d sample_env_def create_env.simps)
  from create_probing [OF b this refl] show ?thesis by simp
qed

lemma sample_create_fails:
  "\<exists>e s'. create (sample_env (\<lambda>_. refused)) sample_check False two_sessions = (Return (Inl e), s') \<and>
     e \<noteq> ErrDraining \<and> e \<noteq> ErrSessionExists"
proof -
  obtain p s1 where b: "create_begin (sample_env (\<lambda>_. refused)) sample_check False two_sessions = (Probing p, s1)"
    using sample_begin by blast
  obtain res t n where v: "Version (env_world (sample_env (\<lambda>_. refused))) (pending_deadline p s1) (p_start p) = (res, t, n)"
    by (cases "Version (env_world (sample_env (\<lambda>_. refused))) (pending_deadline p s1) (p_start p)")
  have "version (met refused) = Inl (Errorf ''making request: %w'' [] (Some (ErrExt ''connection refused'')))"
    by (simp add: version_def refused_def)
  then obtain e where e: "res = Inl e"
    using loop_result [OF v [unfolded Version_def]] by (cases res) (simp_all add: sample_env_def)
  from Version_error [OF v [unfolded Version_def e]] create_probing [OF b v refl] e show ?thesis by simp
qed

lemma two_sessions_ok [simp]: "map_ok (sessions two_sessions)"
  by (simp add: map_ok_def)

theorem create_success_witness:
  "\<exists>si s'. create (sample_env answering) sample_check False two_sessions = (Return (Inr si), s') \<and>
     Sessions s' = [ID si] \<and> terminated_total ''replaced'' (metrics s') = 2 \<and>
     (\<exists>sess. map_get (sessions s') (ID si) = Some sess \<and> (''tenantID'', VStr ''3'') \<in> set (logger sess))"
proof -
  obtain si s' where c: "create (sample_env answering) sample_check False two_sessions = (Return (Inr si), s')"
    using sample_create_ok by blast
  have "length (Sessions two_sessions) = 2" by (simp add: Sessions_def)
  then show ?thesis
    using create_success [OF two_sessions_ok c] c
    by (auto simp: TerminationReasonReplaced_def sample_check_def attr_of_def)
qed

theorem create_failure_witness:
  "\<exists>e s'. create (sample_env (\<lambda>_. refused)) sample_check False two_sessions = (Return (Inl e), s') \<and>
     errors_Is e DeadlineExceeded \<and> Sessions s' = [] \<and> ctx_err (ctxs s' ! 2) \<noteq> None"
proof -
  obtain e s' where c: "create (sample_env (\<lambda>_. refused)) sample_check False two_sessions = (Return (Inl e), s')"
    and ne: "e \<noteq> ErrDraining" "e \<noteq> ErrSessionExists" using sample_create_fails by blast
  have "length (ctxs two_sessions) = 2" by simp
  then show ?thesis using create_failure [OF two_sessions_ok c ne] c by metis
qed

end
