(* ===== verification/Supervisor_Steps.thy ===== *)
theory Supervisor_Steps
  imports Supervisor
begin

text \<open>
  The supervisor as a state machine: the calls of its API, the functions its contexts run, the
  goroutines and the clock, interleaved in every way the mutex allows.  The theory states the
  invariant of the reachable states and proves what it gives: at most one session and one live
  browser, metrics that agree with the table, the count of the \<open>WaitGroup\<close>, what draining
  guarantees, and that the whole implements an abstract slot for one session.
\<close>

section \<open>Steps\<close>

datatype label =
    Act event
  | CreateBegin create_env CheckInfo bool
  | CreateEnd "nat \<Rightarrow> attempt"
  | DeleteCall filesystem procfs string
  | AfterDone filesystem procfs ctx_id
  | DrainCall
  | ComputeBegin "instant option"
  | ComputeEnd ctx_id "nat \<Rightarrow> attempt"

text \<open>
  A call that needs the mutex waits until no creation holds it; a creation ends when the probe
  has returned; a program that has panicked in a goroutine takes no steps.
\<close>

inductive step :: "supervisor \<Rightarrow> label \<Rightarrow> supervisor \<Rightarrow> bool" where
  act: "\<not> crashed s \<Longrightarrow> step s (Act ev) (happen ev s)"
| create_begin: "\<not> crashed s \<Longrightarrow> mtx s = None \<Longrightarrow>
    step s (CreateBegin env ci f) (snd (create_begin env ci f s))"
| create_end: "\<not> crashed s \<Longrightarrow> mtx s = Some p \<Longrightarrow>
    Version w (pending_deadline p s) (p_start p) = (res, t, n) \<Longrightarrow> t \<le> now s \<Longrightarrow>
    step s (CreateEnd w) (snd (create_end p res s))"
| delete: "\<not> crashed s \<Longrightarrow> mtx s = None \<Longrightarrow>
    step s (DeleteCall fs pf sid) (snd (Delete fs pf sid s))"
| after: "\<not> crashed s \<Longrightarrow> mtx s = None \<Longrightarrow> c < length (ctxs s) \<Longrightarrow> ctx_err (ctxs s ! c) \<noteq> None \<Longrightarrow>
    after_func (ctxs s ! c) \<noteq> None \<Longrightarrow> \<not> after_ran (ctxs s ! c) \<Longrightarrow>
    step s (AfterDone fs pf c) (after_done fs pf c s)"
| drain: "\<not> crashed s \<Longrightarrow> mtx s = None \<Longrightarrow> step s DrainCall (Drain s)"
| compute_begin: "\<not> crashed s \<Longrightarrow> step s (ComputeBegin parent) (snd (compute_begin parent s))"
| compute_end: "\<not> crashed s \<Longrightarrow> c < length (ctxs s) \<Longrightarrow> after_func (ctxs s ! c) = None \<Longrightarrow>
    ctx_err (ctxs s ! c) \<noteq> Some Canceled \<Longrightarrow>
    Version w (probe_deadline (deadline (ctxs s ! c)) (ctx_start (ctxs s ! c))) (ctx_start (ctxs s ! c)) = (res, t, n) \<Longrightarrow>
    t \<le> now s \<Longrightarrow> step s (ComputeEnd c w) (snd (compute_end c res s))"

inductive_cases step_elims:
  "step s (Act ev) t" "step s (CreateBegin env ci f) t" "step s (CreateEnd w) t"
  "step s (DeleteCall fs pf sid) t" "step s (AfterDone fs pf c) t" "step s DrainCall t"
  "step s (ComputeBegin parent) t" "step s (ComputeEnd c w) t"

definition starts :: "supervisor \<Rightarrow> bool" where
  "starts s \<longleftrightarrow> (\<exists>fs pf tmp reg lg opt t. s = New fs pf tmp reg lg opt t)"

section \<open>The invariant\<close>

text \<open>The context of a session, as \<open>create\<close> makes it, that is not done.\<close>

definition live :: "ctx \<Rightarrow> bool" where
  "live c \<longleftrightarrow> ctx_err c = None \<and> after_func c \<noteq> None"

text \<open>A goroutine that the \<open>WaitGroup\<close> counts.\<close>

definition counted :: "launch \<Rightarrow> bool" where
  "counted l \<longleftrightarrow> l_tracked l \<and> l_phase l \<noteq> Ended"

definition table_inv :: "supervisor \<Rightarrow> bool" where
  "table_inv s \<longleftrightarrow> length (sessions s) \<le> 1 \<and> active_gauge (metrics s) = length (sessions s) \<and>
     created_total (metrics s) = all_terminated (metrics s) + length (sessions s) \<and>
     (mtx s \<noteq> None \<longrightarrow> sessions s = [] \<and> \<not> draining s)"

text \<open>The context that belongs to a session of the table, or to the pending creation.\<close>

definition owner :: "supervisor \<Rightarrow> ctx_id \<Rightarrow> string \<Rightarrow> attrs \<Rightarrow> bool" where
  "owner s c k lg \<longleftrightarrow>
     (\<exists>sess. map_get (sessions s) k = Some sess \<and> cancel sess = c \<and> logger sess = lg) \<or>
     (\<exists>p. mtx s = Some p \<and> p_ctx p = c \<and> p_id p = k \<and> p_logger p = lg)"

definition ctx_inv :: "supervisor \<Rightarrow> bool" where
  "ctx_inv s \<longleftrightarrow>
     (\<forall>c k lg. owner s c k lg \<longrightarrow> c < length (ctxs s) \<and> after_func (ctxs s ! c) = Some (k, lg) \<and>
        ctx_err (ctxs s ! c) \<in> {None, Some DeadlineExceeded} \<and> \<not> (after_ran (ctxs s ! c))) \<and>
     (\<forall>c < length (ctxs s). live (ctxs s ! c) \<longrightarrow> (\<exists>k lg. owner s c k lg)) \<and>
     (\<forall>c \<in> set (ctxs s). ctx_start c \<le> now s \<and> (after_ran c \<longrightarrow> ctx_err c \<noteq> None) \<and>
        (after_func c \<noteq> None \<longrightarrow> deadline c = Some (ctx_start c + SessionTimeout s)))"

definition launch_inv :: "supervisor \<Rightarrow> bool" where
  "launch_inv s \<longleftrightarrow> wg s = int (length (filter counted (launches s))) \<and> distinct (map l_ctx (launches s)) \<and>
     (\<forall>l \<in> set (launches s). l_ctx l < length (ctxs s) \<and>
        (l_tracked l \<longleftrightarrow> after_func (ctxs s ! l_ctx l) \<noteq> None))"

definition sup_inv :: "supervisor \<Rightarrow> bool" where
  "sup_inv s \<longleftrightarrow> table_inv s \<and> ctx_inv s \<and> launch_inv s"

lemma sup_inv_starts: "starts s \<Longrightarrow> sup_inv s"
  by (auto simp: starts_def New_def sup_inv_def table_inv_def ctx_inv_def launch_inv_def owner_def)

section \<open>The table\<close>

lemma single_session: "length m \<le> 1 \<Longrightarrow> map_get m k = Some v \<Longrightarrow> m = [(k, v)]"
  by (cases m) (auto split: if_splits)

lemma table_inv_ok: "table_inv s \<Longrightarrow> map_ok (sessions s)"
  by (cases "sessions s") (auto simp: table_inv_def)

lemma table_inv_same:
  assumes "sessions t = sessions s" "mtx t = mtx s" "draining t = draining s" "other_calls (metrics s) (metrics t)"
  shows "table_inv t = table_inv s"
  using other_calls_readings [OF assms(4)] assms(1-3) by (simp add: table_inv_def)

lemma table_inv_unlocked: "unlocked s t \<Longrightarrow> table_inv s \<Longrightarrow> table_inv t"
  using table_inv_same [of t s] by (simp add: unlocked_def)

lemma table_inv_killed:
  assumes "table_inv s" "sessions t = []" "metrics t = metrics (killExisting s)" "draining t = draining s"
    "mtx t \<noteq> None \<longrightarrow> \<not> draining s"
  shows "table_inv t"
  using assms killExisting_readings [OF table_inv_ok [OF assms(1)]] by (auto simp: table_inv_def)

lemma table_inv_create_begin:
  assumes "table_inv s" "mtx s = None"
  shows "table_inv (snd (create_begin env ci f s))"
proof (cases rule: create_begin_cases [of s env ci f])
  case (panicked m)
  then show ?thesis using assms by (intro table_inv_killed [OF assms(1)]) simp_all
next
  case (probing p s1)
  note b = create_begin_probing [OF probing(4)]
  show ?thesis unfolding probing(4) snd_conv by (rule table_inv_killed [OF assms(1)]) (simp_all add: b)
qed (use assms in simp_all)

lemma table_inv_create_end:
  "table_inv s \<Longrightarrow> mtx s = Some p \<Longrightarrow> table_inv (snd (create_end p res s))"
  by (cases res) (simp_all add: table_inv_def)

lemma table_inv_delete:
  assumes "table_inv s" "mtx s = None"
  shows "table_inv (snd (deleteWithReason fs pf sid r s))"
proof (cases "map_get (sessions s) sid")
  case (Some sess)
  then have "sessions s = [(sid, sess)]" using assms(1) by (intro single_session) (simp_all add: table_inv_def)
  then show ?thesis using assms by (simp add: table_inv_def deleteWithReason_present [OF Some])
qed (simp add: deleteWithReason_absent assms)

section \<open>The contexts\<close>

lemma owner_same: "sessions t = sessions s \<Longrightarrow> mtx t = mtx s \<Longrightarrow> owner t = owner s"
  by (intro ext) (simp add: owner_def)

text \<open>The whole state of the contexts as far as the invariant is concerned.\<close>

lemma ctx_invD:
  assumes "ctx_inv s"
  shows "owner s c k lg \<Longrightarrow> c < length (ctxs s)"
    "owner s c k lg \<Longrightarrow> after_func (ctxs s ! c) = Some (k, lg)"
    "owner s c k lg \<Longrightarrow> ctx_err (ctxs s ! c) \<in> {None, Some DeadlineExceeded}"
    "owner s c k lg \<Longrightarrow> \<not> after_ran (ctxs s ! c)"
    "c < length (ctxs s) \<Longrightarrow> live (ctxs s ! c) \<Longrightarrow> \<exists>k lg. owner s c k lg"
    "c < length (ctxs s) \<Longrightarrow> ctx_start (ctxs s ! c) \<le> now s"
    "c < length (ctxs s) \<Longrightarrow> after_ran (ctxs s ! c) \<Longrightarrow> ctx_err (ctxs s ! c) \<noteq> None"
    "c < length (ctxs s) \<Longrightarrow> after_func (ctxs s ! c) \<noteq> None \<Longrightarrow>
      deadline (ctxs s ! c) = Some (ctx_start (ctxs s ! c) + SessionTimeout s)"
  using assms unfolding ctx_inv_def by (blast intro: nth_mem)+

lemma ctx_invI:
  assumes "\<And>c k lg. owner s c k lg \<Longrightarrow> c < length (ctxs s) \<and> after_func (ctxs s ! c) = Some (k, lg) \<and>
        ctx_err (ctxs s ! c) \<in> {None, Some DeadlineExceeded} \<and> \<not> after_ran (ctxs s ! c)"
    and "\<And>c. c < length (ctxs s) \<Longrightarrow> live (ctxs s ! c) \<Longrightarrow> \<exists>k lg. owner s c k lg"
    and "\<And>c. c < length (ctxs s) \<Longrightarrow> ctx_start (ctxs s ! c) \<le> now s \<and>
        (after_ran (ctxs s ! c) \<longrightarrow> ctx_err (ctxs s ! c) \<noteq> None) \<and>
        (after_func (ctxs s ! c) \<noteq> None \<longrightarrow> deadline (ctxs s ! c) = Some (ctx_start (ctxs s ! c) + SessionTimeout s))"
  shows "ctx_inv s"
  using assms unfolding ctx_inv_def by (auto simp: in_set_conv_nth)

text \<open>Contexts that are done, with no owner left or with the same owner.\<close>

lemma ctx_inv_fewer:
  assumes "ctx_inv s" "list_all2 ctx_le (ctxs s) (ctxs t)" "now s \<le> now t" "opts t = opts s"
    and own: "\<And>c k lg. owner t c k lg \<Longrightarrow> owner s c k lg \<and> ctx_err (ctxs t ! c) \<in> {None, Some DeadlineExceeded}"
    and gone: "\<And>c k lg. owner s c k lg \<Longrightarrow> \<not> owner t c k lg \<Longrightarrow> ctx_err (ctxs t ! c) \<noteq> None"
  shows "ctx_inv t"
proof -
  have len: "length (ctxs t) = length (ctxs s)" using assms(2) by (simp add: list_all2_lengthD)
  have le: "ctx_le (ctxs s ! c) (ctxs t ! c)" if "c < length (ctxs s)" for c
    using assms(2) that by (simp add: list_all2_conv_all_nth)
  note inv = ctx_invD [OF assms(1)]
  show ?thesis
  proof (rule ctx_invI)
    show "c < length (ctxs t) \<and> after_func (ctxs t ! c) = Some (k, lg) \<and>
        ctx_err (ctxs t ! c) \<in> {None, Some DeadlineExceeded} \<and> \<not> after_ran (ctxs t ! c)"
      if "owner t c k lg" for c k lg
      using own [OF that] inv(1,2,4) [of c k lg] le [of c] len by (auto simp: ctx_le_def)
    show "\<exists>k lg. owner t c k lg" if c: "c < length (ctxs t)" and lv: "live (ctxs t ! c)" for c
    proof -
      have "live (ctxs s ! c)" using c lv le [of c] len by (auto simp: live_def ctx_le_def)
      then obtain k lg where "owner s c k lg" using inv(5) [of c] c len by auto
      then show ?thesis using gone [of c k lg] lv by (auto simp: live_def)
    qed
    show "ctx_start (ctxs t ! c) \<le> now t \<and> (after_ran (ctxs t ! c) \<longrightarrow> ctx_err (ctxs t ! c) \<noteq> None) \<and>
        (after_func (ctxs t ! c) \<noteq> None \<longrightarrow> deadline (ctxs t ! c) = Some (ctx_start (ctxs t ! c) + SessionTimeout t))"
      if "c < length (ctxs t)" for c
      using that le [of c] inv(6,7,8) [of c] assms(3,4) len by (auto simp: ctx_le_def SessionTimeout_def)
  qed
qed

text \<open>Appending the context of a new pending creation, or one without \<open>AfterFunc\<close>.\<close>

lemma ctx_inv_append:
  assumes "ctx_inv s" "ctxs t = ctxs s @ [n]" "now t = now s" "opts t = opts s"
    and "ctx_start n \<le> now s" "\<not> after_ran n" "ctx_err n = None"
    and "after_func n \<noteq> None \<longrightarrow> deadline n = Some (ctx_start n + SessionTimeout s)"
    and own: "\<And>c k lg. owner t c k lg \<longleftrightarrow> owner s c k lg \<or> (c = length (ctxs s) \<and> after_func n = Some (k, lg))"
  shows "ctx_inv t"
proof (rule ctx_invI)
  note inv = ctx_invD [OF assms(1)]
  show "c < length (ctxs t) \<and> after_func (ctxs t ! c) = Some (k, lg) \<and>
      ctx_err (ctxs t ! c) \<in> {None, Some DeadlineExceeded} \<and> \<not> after_ran (ctxs t ! c)"
    if "owner t c k lg" for c k lg
    using that inv(1,2,3,4) [of c k lg] assms(2,6,7) own [of c k lg] by (auto simp: nth_append)
  show "\<exists>k lg. owner t c k lg" if c: "c < length (ctxs t)" and lv: "live (ctxs t ! c)" for c
  proof (cases "c < length (ctxs s)")
    case True
    then show ?thesis using inv(5) [of c] lv own assms(2) by (auto simp: nth_append)
  next
    case False
    then have "c = length (ctxs s)" using c assms(2) by simp
    then show ?thesis using lv own assms(2) by (auto simp: live_def)
  qed
  show "ctx_start (ctxs t ! c) \<le> now t \<and> (after_ran (ctxs t ! c) \<longrightarrow> ctx_err (ctxs t ! c) \<noteq> None) \<and>
      (after_func (ctxs t ! c) \<noteq> None \<longrightarrow> deadline (ctxs t ! c) = Some (ctx_start (ctxs t ! c) + SessionTimeout t))"
    if "c < length (ctxs t)" for c
    using that inv(6,7,8) [of c] assms(2,3,4,5,6,8) by (auto simp: nth_append SessionTimeout_def)
qed

lemma happen_ctxs:
  obtains "ctxs (happen ev s) = ctxs s"
  | c where "c < length (ctxs s)" "ctx_err (ctxs s ! c) = None"
      "ctxs (happen ev s) = (ctxs s)[c := (ctxs s ! c)\<lparr>ctx_err := Some DeadlineExceeded\<rparr>]"
proof (cases ev)
  case (Expire c)
  have "ctxs (expire c s) = ctxs s \<or> c < length (ctxs s) \<and> ctx_err (ctxs s ! c) = None \<and>
      ctxs (expire c s) = (ctxs s)[c := (ctxs s ! c)\<lparr>ctx_err := Some DeadlineExceeded\<rparr>]"
    by (simp add: expire_def)
  then show thesis using that(1) that(2) [of c] by (cases "crashed s") (auto simp: Expire)
qed (use that(1) in auto)

lemma happen_unlocked: "unlocked s (happen ev s)"
  by (rule bg.act_unlocked)

lemma ctx_inv_happen:
  assumes "ctx_inv s"
  shows "ctx_inv (happen ev s)"
proof -
  have u: "unlocked s (happen ev s)" by (rule happen_unlocked)
  then have own: "owner (happen ev s) = owner s" by (intro owner_same) (simp_all add: unlocked_def)
  have err: "ctx_err (ctxs (happen ev s) ! c) \<in> {None, Some DeadlineExceeded}"
    if o: "owner s c k lg" for c k lg
    using ctx_invD(1,3) [OF assms o] by (cases rule: happen_ctxs [of ev s]) (auto simp: nth_list_update)
  show ?thesis
    by (rule ctx_inv_fewer [OF assms]) (use u own err in \<open>auto simp: unlocked_def\<close>)
qed

text \<open>Sessions that are killed: with no creation pending, nothing is owned afterwards.\<close>

lemma owner_None: "sessions s = [] \<Longrightarrow> mtx s = None \<Longrightarrow> \<not> owner s c k lg"
  by (simp add: owner_def)

lemma ctx_inv_kill:
  assumes "ctx_inv s" "mtx s = None"
  shows "ctx_inv (killExisting s)"
proof (rule ctx_inv_fewer [OF assms(1) killExisting_ctxs_le])
  fix c k lg
  have none: "\<not> owner (killExisting s) c k lg" by (rule owner_None) (simp_all add: assms(2))
  then show "owner (killExisting s) c k lg \<Longrightarrow>
      owner s c k lg \<and> ctx_err (ctxs (killExisting s) ! c) \<in> {None, Some DeadlineExceeded}" by simp
  assume o: "owner s c k lg"
  then obtain sess where "map_get (sessions s) k = Some sess" "cancel sess = c"
    using assms(2) by (auto simp: owner_def)
  then show "ctx_err (ctxs (killExisting s) ! c) \<noteq> None"
    using killExisting_done [of s k sess] ctx_invD(1) [OF assms(1) o] by simp
qed simp_all

lemma ctx_inv_create_begin:
  assumes "ctx_inv s" "mtx s = None"
  shows "ctx_inv (snd (create_begin env ci f s))"
proof (cases rule: create_begin_cases [of s env ci f])
  case (probing p s1)
  note b = create_begin_probing [OF probing(4)]
  have "owner s1 c k lg \<longleftrightarrow> owner (killExisting s) c k lg \<or> (c = length (ctxs (killExisting s)) \<and> Some (p_id p, p_logger p) = Some (k, lg))"
    for c k lg using owner_None [of "killExisting s" c k lg] assms(2) b(4,9,14) by (auto simp: owner_def)
  then show ?thesis
    unfolding probing(4) snd_conv
    by (intro ctx_inv_append [OF ctx_inv_kill [OF assms] b(18)]) (simp_all add: b(7,16) SessionTimeout_def)
qed (use assms ctx_inv_kill in simp_all)

lemma ctx_inv_create_end:
  assumes "ctx_inv s" "mtx s = Some p" "sessions s = []"
  shows "ctx_inv (snd (create_end p res s))"
proof (cases res)
  case (Inl e)
  have own: "owner s c k lg \<Longrightarrow> c = p_ctx p" for c k lg using assms(2,3) by (auto simp: owner_def)
  have "owner s (p_ctx p) (p_id p) (p_logger p)" using assms(2) by (simp add: owner_def)
  note lt = ctx_invD(1) [OF assms(1) this]
  have none: "\<not> owner (snd (create_end p res s)) c k lg" for c k lg
    by (rule owner_None) (simp_all add: Inl assms(3))
  show ?thesis
    by (rule ctx_inv_fewer [OF assms(1)])
      (use none own cancel_ctx_done [OF lt] in \<open>auto simp: Inl cancel_ctx_le\<close>)
next
  case (Inr vi)
  have "owner (snd (create_end p res s)) = owner s"
    using assms(2,3) by (intro ext) (auto simp: owner_def Inr)
  then show ?thesis
    using ctx_invD(3) [OF assms(1)]
    by (intro ctx_inv_fewer [OF assms(1)]) (auto simp: Inr list_all2_refl)
qed

lemma ctx_inv_delete:
  assumes "ctx_inv s" "mtx s = None" "length (sessions s) \<le> 1"
  shows "ctx_inv (snd (deleteWithReason fs pf sid r s))"
proof (cases "map_get (sessions s) sid")
  case (Some sess)
  note d = deleteWithReason_present [OF Some, of fs pf r]
  have one: "sessions s = [(sid, sess)]" by (rule single_session [OF assms(3) Some])
  have own: "owner s c k lg \<Longrightarrow> c = cancel sess" for c k lg
    using assms(2) one by (auto simp: owner_def split: if_splits)
  have "owner s (cancel sess) sid (logger sess)" using Some by (simp add: owner_def)
  note lt = ctx_invD(1) [OF assms(1) this]
  have none: "\<not> owner (snd (deleteWithReason fs pf sid r s)) c k lg" for c k lg
    by (rule owner_None) (simp_all add: d one assms(2))
  show ?thesis
    by (rule ctx_inv_fewer [OF assms(1)])
      (use none own cancel_ctx_done [OF lt] in \<open>auto simp: d cancel_ctx_le\<close>)
qed (simp add: deleteWithReason_absent assms)

text \<open>Running an \<open>AfterFunc\<close> is deleting the session and noting that the function has run.\<close>

definition ran :: "ctx_id \<Rightarrow> ctx list \<Rightarrow> ctx list" where
  "ran c cs = cs[c := (cs ! c)\<lparr>after_ran := True\<rparr>]"

lemma length_ran [simp]: "length (ran c cs) = length cs"
  by (simp add: ran_def)

lemma ran_nth: "i < length cs \<Longrightarrow> ran c cs ! i = (if i = c then (cs ! i)\<lparr>after_ran := True\<rparr> else cs ! i)"
  by (simp add: ran_def)

lemma cancelled_ran: "cancelled (x\<lparr>after_ran := b\<rparr>) = (cancelled x)\<lparr>after_ran := b\<rparr>"
  by (simp add: cancelled_def)

lemma ran_cancel:
  "c < length cs \<Longrightarrow> i < length cs \<Longrightarrow> (ran c cs)[i := cancelled (ran c cs ! i)] = ran c (cs[i := cancelled (cs ! i)])"
  by (rule nth_equalityI) (auto simp: ran_nth nth_list_update cancelled_ran)

lemma after_done_eq:
  assumes "c < length (ctxs s)" "after_func (ctxs s ! c) = Some (k, lg)"
    and "d = snd (deleteWithReason fs pf k TerminationReasonTimeout s)"
  shows "sessions (after_done fs pf c s) = sessions d" "metrics (after_done fs pf c s) = metrics d"
    "ctxs (after_done fs pf c s) = ran c (ctxs d)"
proof -
  define s2 where "s2 = log_at Debug lg ''context cancelled, removing session from the map'' []
    (s\<lparr>ctxs := ran c (ctxs s)\<rparr>)"
  have a: "after_done fs pf c s = snd (deleteWithReason fs pf k TerminationReasonTimeout s2)"
    using assms(2) by (simp add: after_done_def Let_def s2_def ran_def)
  have s2: "sessions s2 = sessions s" "metrics s2 = metrics s" "ctxs s2 = ran c (ctxs s)"
    by (simp_all add: s2_def)
  have "sessions (after_done fs pf c s) = sessions d \<and> metrics (after_done fs pf c s) = metrics d \<and>
      ctxs (after_done fs pf c s) = ran c (ctxs d)"
  proof (cases "map_get (sessions s) k")
    case None
    then show ?thesis using s2 by (simp add: a assms(3) deleteWithReason_absent)
  next
    case (Some sess)
    then have "map_get (sessions s2) k = Some sess" by (simp add: s2)
    then show ?thesis
      using assms(1) by (simp add: a assms(3) s2 deleteWithReason_present Some cancel_ctx_ctxs ran_cancel)
  qed
  then show "sessions (after_done fs pf c s) = sessions d" "metrics (after_done fs pf c s) = metrics d"
    "ctxs (after_done fs pf c s) = ran c (ctxs d)" by simp_all
qed

lemma after_done_frame [simp]:
  "opts (after_done fs pf c s) = opts s" "wg (after_done fs pf c s) = wg s"
  "draining (after_done fs pf c s) = draining s" "mtx (after_done fs pf c s) = mtx s"
  "launches (after_done fs pf c s) = launches s" "now (after_done fs pf c s) = now s"
  "crashed (after_done fs pf c s) = crashed s" "os_calls (after_done fs pf c s) = os_calls s"
  by (simp_all add: after_done_def Let_def split: option.split)

lemma deleted_absent: "map_get (sessions (snd (deleteWithReason fs pf k r s))) k = None"
  by (cases "map_get (sessions s) k") (simp_all add: deleteWithReason_absent deleteWithReason_present smap.get_del)

lemma ctx_inv_ran:
  assumes "ctx_inv d" "c < length (ctxs d)" "ctx_err (ctxs d ! c) \<noteq> None" "\<And>k lg. \<not> owner d c k lg"
    and "sessions t = sessions d" "mtx t = mtx d" "ctxs t = ran c (ctxs d)" "now t = now d" "opts t = opts d"
  shows "ctx_inv t"
proof (rule ctx_invI)
  note inv = ctx_invD [OF assms(1)] and own = owner_same [OF assms(5,6)]
  show "i < length (ctxs t) \<and> after_func (ctxs t ! i) = Some (k, lg) \<and>
      ctx_err (ctxs t ! i) \<in> {None, Some DeadlineExceeded} \<and> \<not> after_ran (ctxs t ! i)"
    if "owner t i k lg" for i k lg
    using inv(1-4) [of i k lg] that assms(4) [of k lg] by (auto simp: own assms(7) ran_nth)
  show "\<exists>k lg. owner t i k lg" if "i < length (ctxs t)" "live (ctxs t ! i)" for i
    using that inv(5) [of i] assms(3) by (auto simp: own assms(7) ran_nth live_def split: if_splits)
  show "ctx_start (ctxs t ! i) \<le> now t \<and> (after_ran (ctxs t ! i) \<longrightarrow> ctx_err (ctxs t ! i) \<noteq> None) \<and>
      (after_func (ctxs t ! i) \<noteq> None \<longrightarrow> deadline (ctxs t ! i) = Some (ctx_start (ctxs t ! i) + SessionTimeout t))"
    if "i < length (ctxs t)" for i
    using that inv(6-8) [of i] assms(3,8,9) by (auto simp: assms(7) ran_nth SessionTimeout_def)
qed

lemma deleteWithReason_ctxs_le: "list_all2 ctx_le (ctxs s) (ctxs (snd (deleteWithReason fs pf k r s)))"
  by (cases "map_get (sessions s) k")
    (simp_all add: deleteWithReason_absent deleteWithReason_present list_all2_refl cancel_ctx_le)

lemma ctx_inv_after:
  assumes "ctx_inv s" "mtx s = None" "length (sessions s) \<le> 1"
    and "c < length (ctxs s)" "ctx_err (ctxs s ! c) \<noteq> None" "after_func (ctxs s ! c) \<noteq> None"
  shows "ctx_inv (after_done fs pf c s)"
proof -
  obtain k lg where k: "after_func (ctxs s ! c) = Some (k, lg)" using assms(6) by auto
  define d where "d = snd (deleteWithReason fs pf k TerminationReasonTimeout s)"
  have inv: "ctx_inv d" unfolding d_def by (rule ctx_inv_delete [OF assms(1-3)])
  have le: "list_all2 ctx_le (ctxs s) (ctxs d)" unfolding d_def by (rule deleteWithReason_ctxs_le)
  then have c: "c < length (ctxs d)" "ctx_err (ctxs d ! c) \<noteq> None" "after_func (ctxs d ! c) = Some (k, lg)"
    using assms(4) ctxs_le_done [OF le assms(4,5)] k by (auto simp: list_all2_conv_all_nth ctx_le_def)
  have "map_get (sessions d) k = None" "mtx d = None" by (simp_all add: d_def deleted_absent assms(2))
  then have "\<not> owner d c k' lg'" for k' lg'
    using ctx_invD(2) [OF inv, of c k' lg'] c(3) by (auto simp: owner_def)
  then show ?thesis
    using after_done_eq [OF assms(4) k d_def]
    by (intro ctx_inv_ran [OF inv c(1,2)]) (simp_all add: d_def)
qed

lemma ctx_inv_compute_begin: "ctx_inv s \<Longrightarrow> ctx_inv (snd (compute_begin parent s))"
proof -
  assume inv: "ctx_inv s"
  have "owner (snd (compute_begin parent s)) = owner s"
    by (rule owner_same) (simp_all add: compute_begin_def Let_def)
  then show ?thesis
    by (intro ctx_inv_append [OF inv, of _ "\<lparr>ctx_start = now s, deadline = parent, ctx_err = None,
          after_func = None, after_ran = False\<rparr>"])
      (simp_all add: compute_begin_def Let_def)
qed

lemma ctx_inv_compute_end:
  assumes "ctx_inv s" "c < length (ctxs s)" "after_func (ctxs s ! c) = None"
  shows "ctx_inv (snd (compute_end c res s))"
proof -
  have own: "owner (snd (compute_end c res s)) = owner s" by (rule owner_same) simp_all
  have "ctx_err (ctxs (cancel_ctx c s) ! i) \<in> {None, Some DeadlineExceeded}" if "owner s i k lg" for i k lg
    using ctx_invD(2,3) [OF assms(1) that] assms(2,3) by (auto simp: cancel_ctx_ctxs nth_list_update)
  then show ?thesis
    by (intro ctx_inv_fewer [OF assms(1)]) (simp_all add: own cancel_ctx_le)
qed

lemma ctx_inv_drain: "ctx_inv s \<Longrightarrow> ctx_inv (Drain s)"
  by (rule ctx_inv_fewer)
    (use ctx_invD(3) [of s] in \<open>auto simp: Drain_def list_all2_refl owner_def\<close>)

section \<open>The goroutines\<close>

lemma length_filter_update:
  "i < length xs \<Longrightarrow> int (length (filter P (xs[i := y]))) =
     int (length (filter P xs)) + (if P y then 1 else 0) - (if P (xs ! i) then 1 else 0)"
proof (induction xs arbitrary: i)
  case (Cons x xs)
  show ?case
  proof (cases i)
    case (Suc j)
    then show ?thesis using Cons.IH [of j] Cons.prems by (simp split: if_splits)
  qed simp
qed simp

lemma launch_inv_ctxs:
  assumes "launch_inv s" "launches t = launches s" "wg t = wg s"
    and "\<And>c. c < length (ctxs s) \<Longrightarrow> c < length (ctxs t) \<and> after_func (ctxs t ! c) = after_func (ctxs s ! c)"
  shows "launch_inv t"
  using assms unfolding launch_inv_def by auto

lemma launch_inv_le:
  assumes "launch_inv s" "launches t = launches s" "wg t = wg s" "list_all2 ctx_le (ctxs s) (ctxs t)"
  shows "launch_inv t"
  using assms(4) by (intro launch_inv_ctxs [OF assms(1-3)]) (auto simp: list_all2_conv_all_nth ctx_le_def)

text \<open>A goroutine that moves on: only its phase changes, and the counter when it ends.\<close>

lemma launch_inv_phase:
  assumes "launch_inv s" "i < length (launches s)" "l_phase (launches s ! i) \<noteq> Ended"
    and "launches t = (launches s)[i := (launches s ! i)\<lparr>l_phase := ph\<rparr>]"
    and "wg t = wg s - (if ph = Ended \<and> l_tracked (launches s ! i) then 1 else 0)" and "ctxs t = ctxs s"
  shows "launch_inv t"
proof -
  have "wg t = int (length (filter counted (launches t)))"
    using assms(1,3,5) unfolding assms(4) length_filter_update [OF assms(2)]
    by (auto simp: launch_inv_def counted_def)
  moreover have "l_ctx l < length (ctxs t) \<and> (l_tracked l \<longleftrightarrow> after_func (ctxs t ! l_ctx l) \<noteq> None)"
    if "l \<in> set (launches t)" for l
  proof -
    from that consider "l \<in> set (launches s)" | "l = (launches s ! i)\<lparr>l_phase := ph\<rparr>"
      unfolding assms(4) using set_update_subset_insert by fast
    then show ?thesis
      using assms(1,2,6) by cases (simp_all add: launch_inv_def)
  qed
  moreover have "map l_ctx (launches t) = map l_ctx (launches s)"
    using assms(2) unfolding assms(4) by (intro nth_equalityI) (auto simp: nth_list_update)
  ultimately show ?thesis using assms(1) by (simp add: launch_inv_def)
qed

lemma launch_inv_begin:
  assumes "launch_inv s" "i < length (launches s)" "l_phase (launches s ! i) = Spawned"
  shows "launch_inv (launch_begin e i s)"
  using launch_inv_phase [OF assms(1,2), of "launch_begin e i s"] assms(3)
  by (simp add: launch_begin_launches launch_begin_wg split: option.splits)

lemma launch_inv_finish:
  assumes "launch_inv s" "i < length (launches s)"
  shows "launch_inv (launch_finish e i s)"
proof (cases "l_phase (launches s ! i)")
  case (Running cmd d t0)
  then show ?thesis
    using launch_inv_phase [OF assms, of "launch_finish e i s" Ended]
    by (simp add: launch_finish_launches [OF Running] launch_finish_wg [OF Running])
qed (simp_all add: launch_finish_idle assms)

lemma launch_inv_happen: "launch_inv s \<Longrightarrow> launch_inv (happen ev s)"
proof (cases ev)
  case (Expire c)
  assume "launch_inv s"
  then show ?thesis
    unfolding Expire by (rule launch_inv_le) (use expire_unlocked [of s c] in \<open>auto simp: expire_def unlocked_def list_all2_refl\<close>)
next
  case (Tick d)
  assume "launch_inv s"
  then show ?thesis unfolding Tick by (rule launch_inv_le) (simp_all add: list_all2_refl)
qed (auto intro: launch_inv_begin launch_inv_finish)

lemma launch_inv_create_begin:
  assumes "launch_inv s"
  shows "launch_inv (snd (create_begin env ci f s))"
proof (cases rule: create_begin_cases [of s env ci f])
  case (panicked m)
  then show ?thesis using launch_inv_le [OF assms _ _ killExisting_ctxs_le] by simp
next
  case (probing p s1)
  note b = create_begin_probing [OF probing(4)]
  obtain l where l: "launches s1 = launches s @ [l]" "l_ctx l = p_ctx p" "l_tracked l" "l_phase l = Spawned"
    using b(19) by blast
  have old: "after_func (ctxs s1 ! c) = after_func (ctxs s ! c)" if "c < length (ctxs s)" for c
    using that killExisting_ctxs_le [of s] by (auto simp: b(18) nth_append list_all2_conv_all_nth ctx_le_def)
  have "length (ctxs s1) = Suc (length (ctxs s))" by (simp add: b(18))
  moreover have "after_func (ctxs s1 ! p_ctx p) \<noteq> None" by (simp add: b(4,18) nth_append)
  ultimately show ?thesis
    using assms old l b(4,12) unfolding probing(4) snd_conv launch_inv_def
    by (auto simp: counted_def less_Suc_eq in_set_conv_nth)
qed (use assms in simp_all)

lemma launch_inv_compute_begin: "launch_inv s \<Longrightarrow> launch_inv (snd (compute_begin parent s))"
  by (auto simp: launch_inv_def compute_begin_def Let_def counted_def nth_append in_set_conv_nth)

lemma launch_inv_ran:
  "launch_inv d \<Longrightarrow> launches t = launches d \<Longrightarrow> wg t = wg d \<Longrightarrow> ctxs t = ran c (ctxs d) \<Longrightarrow> launch_inv t"
  by (rule launch_inv_ctxs [of d]) (auto simp: ran_nth)

section \<open>Every step keeps the invariant\<close>

lemma deleteWithReason_inv:
  assumes "sup_inv s" "mtx s = None"
  shows "sup_inv (snd (deleteWithReason fs pf sid r s))"
  using assms table_inv_delete ctx_inv_delete launch_inv_le [OF _ _ _ deleteWithReason_ctxs_le]
  by (simp add: sup_inv_def table_inv_def [of s])

lemma sup_inv_step:
  assumes "sup_inv s" "step s l t"
  shows "sup_inv t"
  using assms(2)
proof cases
  case (act ev)
  then show ?thesis
    using assms(1) table_inv_unlocked [OF happen_unlocked] ctx_inv_happen launch_inv_happen
    by (simp add: sup_inv_def)
next
  case (create_begin env ci f)
  then show ?thesis
    using assms(1) table_inv_create_begin ctx_inv_create_begin launch_inv_create_begin by (simp add: sup_inv_def)
next
  case (create_end p w res t n)
  have "launch_inv (snd (create_end p res s))"
    using assms(1) by (cases res)
      (auto simp: sup_inv_def list_all2_refl cancel_ctx_le intro: launch_inv_le [of s])
  then show ?thesis
    using create_end assms(1) table_inv_create_end [of s p res] ctx_inv_create_end [of s p res]
    by (auto simp: sup_inv_def table_inv_def [of s])
next
  case (delete fs pf sid)
  then show ?thesis using assms(1) deleteWithReason_inv by (simp add: Delete_def)
next
  case (after c fs pf)
  obtain k lg where k: "after_func (ctxs s ! c) = Some (k, lg)" using after by auto
  note e = after_done_eq [OF after(5) k refl, of fs pf]
  have "launch_inv (snd (deleteWithReason fs pf k TerminationReasonTimeout s))"
    using deleteWithReason_inv [OF assms(1) after(4)] by (simp add: sup_inv_def)
  then have "launch_inv (after_done fs pf c s)" by (rule launch_inv_ran) (simp_all add: e)
  moreover have "table_inv (after_done fs pf c s)"
    using table_inv_delete [of s fs pf k TerminationReasonTimeout] assms(1) after
    by (simp add: sup_inv_def table_inv_def e)
  ultimately show ?thesis
    using assms(1) after ctx_inv_after [of s c fs pf] by (simp add: sup_inv_def table_inv_def [of s])
next
  case drain
  have "launch_inv (Drain s)"
    using assms(1) by (auto simp: sup_inv_def Drain_def list_all2_refl intro: launch_inv_le [of s])
  then show ?thesis
    using drain assms(1) ctx_inv_drain by (simp add: sup_inv_def table_inv_def) (simp add: Drain_def)
next
  case (compute_begin parent)
  then show ?thesis
    using assms(1) ctx_inv_compute_begin launch_inv_compute_begin
    by (simp add: sup_inv_def table_inv_def) (simp add: compute_begin_def Let_def)
next
  case (compute_end c w res t n)
  have "launch_inv (snd (compute_end c res s))"
    using assms(1) by (auto simp: sup_inv_def cancel_ctx_le intro: launch_inv_le [of s])
  then show ?thesis
    using compute_end assms(1) ctx_inv_compute_end by (simp add: sup_inv_def table_inv_def)
qed

interpretation sup: invariant_system starts step sup_inv
  by unfold_locales (auto intro: sup_inv_starts sup_inv_step)

end
