(* ===== verification/Supervisor_Safety.thy ===== *)
theory Supervisor_Safety
  imports Supervisor_Steps
begin

text \<open>
  What the invariant of the supervisor's steps gives: the properties of every reachable state,
  of draining, and the simulation of an abstract slot for one session.
\<close>

section \<open>Concrete runs\<close>

definition sample_start :: supervisor where
  "sample_start = New (sample_fs ''/f'' []) sample_procfs ''/tmp'' 7 [] sample_options 0"

lemma sample_starts: "starts sample_start"
  unfolding starts_def sample_start_def by blast

lemma sample_start_simps [simp]:
  "sessions sample_start = []" "mtx sample_start = None" "\<not> draining sample_start" "\<not> crashed sample_start"
  "launches sample_start = []" "ctxs sample_start = []" "SessionTimeout sample_start = 300 * second"
  "now sample_start = 0" "wg sample_start = 0"
  by (simp_all add: sample_start_def New_def SessionTimeout_def withDefaults_eq Let_def sample_options_def
      defaultSessionTimeout_def)

text \<open>A creation that finds chromium answering at once.\<close>

definition creation :: "label list" where
  "creation = [CreateBegin (sample_env answering) sample_check False, Act (Tick 1000000), CreateEnd answering]"

lemma creation_run:
  assumes "\<not> crashed s" "mtx s = None" "\<not> draining s" "2 * second \<le> SessionTimeout s"
  shows "\<exists>t k. run step s creation t \<and> \<not> crashed t \<and> mtx t = None \<and> \<not> draining t \<and> opts t = opts s \<and>
    Sessions t = [k] \<and> now t = now s + 1000000 \<and> length (ctxs t) = Suc (length (ctxs s)) \<and>
    ctx_err (ctxs t ! length (ctxs s)) = None \<and>
    (\<exists>l. launches t = launches s @ [l] \<and> l_ctx l = length (ctxs s) \<and> l_tracked l \<and> l_phase l = Spawned)"
proof (cases rule: create_begin_cases [of s "sample_env answering" sample_check False])
  case (panicked m)
  then show ?thesis by (simp add: sample_env_def randString_def)
next
  case (probing p s1)
  note b = create_begin_probing [OF probing(4)]
  have "pending_deadline p s1 = p_start p + 2 * second"
    using assms(4) by (simp add: pending_deadline_def probe_deadline_def b(6,7) SessionTimeout_def)
  then have v: "Version answering (pending_deadline p (happen (Tick 1000000) s1)) (p_start p) =
      (Inr sample_version, p_start p + 1000000, 1)"
    using sample_probe [of "p_start p"] by (simp add: pending_deadline_def)
  define t where "t = snd (create_end p (Inr sample_version) (happen (Tick 1000000) s1))"
  have "step s (CreateBegin (sample_env answering) sample_check False) s1"
    using step.create_begin [OF assms(1,2), of "sample_env answering" sample_check False] probing(4) by simp
  moreover have "step s1 (Act (Tick 1000000)) (happen (Tick 1000000) s1)"
    by (rule step.act) (simp add: b(15) assms(1))
  moreover have "step (happen (Tick 1000000) s1) (CreateEnd answering) t"
    unfolding t_def by (rule step.create_end [OF _ _ v]) (simp_all add: b(6,14,15,16) assms(1))
  ultimately have "run step s creation t" by (simp add: creation_def run_Cons_iff) blast
  moreover have "Sessions t = [p_id p]" by (simp add: t_def Sessions_def b(9))
  moreover have "length (ctxs t) = Suc (length (ctxs s))" "ctx_err (ctxs t ! length (ctxs s)) = None"
    by (simp_all add: t_def b(18) nth_append)
  moreover have "\<exists>l. launches t = launches s @ [l] \<and> l_ctx l = length (ctxs s) \<and> l_tracked l \<and> l_phase l = Spawned"
    using b(4,19) by (auto simp: t_def)
  ultimately show ?thesis
    using assms(1,3) by (auto simp: t_def b(7,13,15,16))
qed (use assms in auto)

text \<open>A reachable state with a session.\<close>

lemma sample_created:
  "\<exists>t k. reach starts step t \<and> run step sample_start creation t \<and> \<not> crashed t \<and> mtx t = None \<and> \<not> draining t \<and>
     Sessions t = [k] \<and> now t = 1000000 \<and> length (ctxs t) = 1 \<and> ctx_err (ctxs t ! 0) = None \<and> SessionTimeout t = 300 * second \<and>
     (\<exists>l. launches t = [l] \<and> l_ctx l = 0 \<and> l_tracked l \<and> l_phase l = Spawned)"
proof -
  obtain t k where t: "run step sample_start creation t" "\<not> crashed t" "mtx t = None" "\<not> draining t"
    "opts t = opts sample_start" "Sessions t = [k]" "now t = now sample_start + 1000000"
    "length (ctxs t) = Suc (length (ctxs sample_start))" "ctx_err (ctxs t ! length (ctxs sample_start)) = None"
    "\<exists>l. launches t = launches sample_start @ [l] \<and> l_ctx l = length (ctxs sample_start) \<and> l_tracked l \<and> l_phase l = Spawned"
    using creation_run [of sample_start] by auto
  have "reach starts step t" by (rule reach_run [OF reach.reach_init [where init = starts and step = step, OF sample_starts] t(1)])
  moreover have "SessionTimeout t = SessionTimeout sample_start" using t(5) by (simp add: SessionTimeout_def)
  ultimately show ?thesis using t by auto
qed

section \<open>Every reachable state\<close>

lemma owner_unique:
  assumes "table_inv s" "owner s c k lg" "owner s d k' lg'"
  shows "c = d"
proof (cases "mtx s")
  case None
  then obtain sess sess' where m: "map_get (sessions s) k = Some sess" "cancel sess = c"
    "map_get (sessions s) k' = Some sess'" "cancel sess' = d"
    using assms(2,3) by (auto simp: owner_def)
  have "sessions s = [(k, sess)]"
    using assms(1) by (intro single_session [OF _ m(1)]) (simp add: table_inv_def)
  then show ?thesis using m by (auto split: if_splits)
next
  case (Some p)
  then show ?thesis using assms by (auto simp: owner_def table_inv_def)
qed

text \<open>
  C1.  One session at a time, and metrics that agree.  In every state the program can reach, by
  any interleaving of calls, timeouts and goroutines, the table has at most one session, the
  gauge \<open>session_active\<close> is the number of sessions, and the sessions created are those
  terminated, for whatever reason, and the one that is there.
\<close>

theorem one_session:
  assumes "reach starts step s"
  shows "length (Sessions s) \<le> 1 \<and> active_gauge (metrics s) = length (Sessions s) \<and>
    created_total (metrics s) = all_terminated (metrics s) + length (Sessions s)"
  using sup.inv_reach [OF assms] by (simp add: sup_inv_def table_inv_def Sessions_def map_keys_def)

theorem one_session_witness:
  "\<exists>s. reach starts step s \<and> Sessions s \<noteq> [] \<and> length (Sessions s) \<le> 1 \<and> active_gauge (metrics s) = 1"
proof -
  obtain t k where "reach starts step t" "Sessions t = [k]" using sample_created by blast
  with one_session [of t] show ?thesis by auto
qed

lemma one_live_browser_lemma:
  assumes "reach starts step s" and "i < length (launches s)" and "j < length (launches s)"
    and "l_tracked (launches s ! i)" and "ctx_err (ctxs s ! l_ctx (launches s ! i)) = None"
    and "l_tracked (launches s ! j)" and "ctx_err (ctxs s ! l_ctx (launches s ! j)) = None"
  shows "i = j \<and> ((\<exists>k sess. sessions s = [(k, sess)] \<and> cancel sess = l_ctx (launches s ! i)) \<or>
    (\<exists>p. mtx s = Some p \<and> p_ctx p = l_ctx (launches s ! i)))"
proof -
  from sup.inv_reach [OF assms(1)] have inv: "table_inv s" "ctx_inv s" "launch_inv s"
    by (simp_all add: sup_inv_def)
  have own: "\<exists>k lg. owner s (l_ctx (launches s ! n)) k lg"
    if "n < length (launches s)" "l_tracked (launches s ! n)" "ctx_err (ctxs s ! l_ctx (launches s ! n)) = None" for n
    using ctx_invD(5) [OF inv(2), of "l_ctx (launches s ! n)"] inv(3) that by (auto simp: launch_inv_def live_def)
  obtain k lg k' lg' where o: "owner s (l_ctx (launches s ! i)) k lg" "owner s (l_ctx (launches s ! j)) k' lg'"
    using own assms by blast
  then have "map l_ctx (launches s) ! i = map l_ctx (launches s) ! j" using owner_unique [OF inv(1)] assms(2,3) by auto
  moreover have "distinct (map l_ctx (launches s))" using inv(3) by (simp add: launch_inv_def)
  ultimately have "i = j" using nth_eq_iff_index_eq [of "map l_ctx (launches s)" i j] assms(2,3) by simp
  moreover have "(\<exists>k sess. sessions s = [(k, sess)] \<and> cancel sess = l_ctx (launches s ! i)) \<or>
      (\<exists>p. mtx s = Some p \<and> p_ctx p = l_ctx (launches s ! i))"
    using o(1) single_session [of "sessions s" k] inv(1) by (auto simp: owner_def table_inv_def)
  ultimately show ?thesis ..
qed

text \<open>
  C2.  One live browser.  In every reachable state at most one goroutine of a session has a context
  that is not done, that is, may run a chromium nobody has asked to stop; and it belongs to the
  session of the table or to a creation that is still probing it.
\<close>

theorem one_live_browser:
  assumes "reach starts step s" and "i < length (launches s)" and "j < length (launches s)"
    and "l_tracked (launches s ! i)" and "ctx_err (ctxs s ! l_ctx (launches s ! i)) = None"
    and "l_tracked (launches s ! j)" and "ctx_err (ctxs s ! l_ctx (launches s ! j)) = None"
  shows "i = j \<and> ((\<exists>k sess. sessions s = [(k, sess)] \<and> cancel sess = l_ctx (launches s ! i)) \<or>
    (\<exists>p. mtx s = Some p \<and> p_ctx p = l_ctx (launches s ! i)))"
  by (rule one_live_browser_lemma [OF assms])

theorem one_live_browser_witness:
  "\<exists>s k sess. reach starts step s \<and> sessions s = [(k, sess)] \<and> cancel sess = l_ctx (launches s ! 0)"
proof -
  obtain t l where t: "reach starts step t" "launches t = [l]" "l_ctx l = 0" "l_tracked l" "mtx t = None"
    "ctx_err (ctxs t ! 0) = None" using sample_created by blast
  with one_live_browser [OF t(1), of 0 0] show ?thesis by auto
qed

text \<open>
  C16.  What \<open>Wait\<close> waits for.  In every reachable state the counter of the \<open>WaitGroup\<close> is the number
  of session goroutines that have not ended, so it is never negative, and \<open>Wait\<close> returns exactly
  when all of them have ended.  The goroutine of \<open>ComputeUserAgent\<close> is not waited for.
\<close>

theorem wait_counts:
  assumes "reach starts step s"
  shows "wg s = int (length (filter (\<lambda>l. l_tracked l \<and> l_phase l \<noteq> Ended) (launches s))) \<and>
    (Wait_returns s \<longleftrightarrow> (\<forall>l \<in> set (launches s). l_tracked l \<longrightarrow> l_phase l = Ended))"
  using sup.inv_reach [OF assms]
  by (auto simp: sup_inv_def launch_inv_def Wait_returns_def counted_def [abs_def] filter_empty_conv)

theorem wait_counts_witness:
  "\<exists>s. reach starts step s \<and> wg s = 1 \<and> \<not> Wait_returns s"
proof -
  obtain t l where t: "reach starts step t" "launches t = [l]" "l_tracked l" "l_phase l = Spawned"
    using sample_created by blast
  with wait_counts [OF t(1)] show ?thesis by auto
qed

section \<open>Draining\<close>

text \<open>What a goroutine of a session still has to do: start chromium, wait for it to end.\<close>

definition todo :: "launch \<Rightarrow> nat" where
  "todo l = (if l_tracked l then (case l_phase l of Spawned \<Rightarrow> 2 | Running _ _ _ \<Rightarrow> 1 | Ended \<Rightarrow> 0) else 0)"

definition work :: "supervisor \<Rightarrow> nat" where
  "work s = sum_list (map todo (launches s))"

lemma todo_simps [simp]:
  "todo (l\<lparr>l_phase := Ended\<rparr>) = 0"
  "todo (l\<lparr>l_phase := Running a b c\<rparr>) = (if l_tracked l then 1 else 0)"
  "l_phase l = Spawned \<Longrightarrow> todo l = (if l_tracked l then 2 else 0)"
  "l_phase l = Running a b c \<Longrightarrow> todo l = (if l_tracked l then 1 else 0)"
  by (simp_all add: todo_def)

lemma sum_list_pos_ex: "0 < sum_list (map f xs) \<Longrightarrow> \<exists>x \<in> set xs. f x \<noteq> (0 :: nat)"
  by (induction xs) auto

lemma work_update:
  assumes "i < length (launches s)" "launches t = (launches s)[i := l]"
  shows "work t + todo (launches s ! i) = work s + todo l"
  using assms elem_le_sum_list [of i "map todo (launches s)"]
  by (simp add: work_def map_update sum_list_update)

lemma work_begin:
  assumes "i < length (launches s)" "l_phase (launches s ! i) = Spawned"
  shows "work (launch_begin e i s) \<le> work s"
    "l_tracked (launches s ! i) \<Longrightarrow> work (launch_begin e i s) < work s"
  using work_update [OF assms(1) launch_begin_launches [of e i s]] assms(2)
  by (auto split: option.splits if_splits)

lemma work_finish:
  assumes "i < length (launches s)"
  shows "work (launch_finish e i s) \<le> work s"
    "l_tracked (launches s ! i) \<Longrightarrow> l_phase (launches s ! i) = Running cmd d t0 \<Longrightarrow> work (launch_finish e i s) < work s"
proof -
  have r: "work (launch_finish e i s) \<le> work s \<and>
      (l_tracked (launches s ! i) \<longrightarrow> work (launch_finish e i s) < work s)"
    if "l_phase (launches s ! i) = Running c x t" for c x t
    using work_update [OF assms launch_finish_launches [OF that, of e]] that by (simp split: if_splits)
  then show "work (launch_finish e i s) \<le> work s"
    by (cases "l_phase (launches s ! i)") (auto simp: launch_finish_idle)
  show "l_tracked (launches s ! i) \<Longrightarrow> l_phase (launches s ! i) = Running cmd d t0 \<Longrightarrow> work (launch_finish e i s) < work s"
    using r by blast
qed

lemma happen_work: "work (happen ev s) \<le> work s"
  by (cases ev) (auto simp: work_begin work_finish expire_def, simp_all add: work_def)

lemma happen_wg: "wg (happen ev s) \<le> wg s"
proof (cases ev)
  case (ChromiumExit e i)
  then show ?thesis
    by (cases "l_phase (launches s ! i)") (auto simp: launch_finish_idle launch_finish_wg)
qed (auto simp: launch_begin_wg expire_def)

lemma happen_opts [simp]: "opts (happen ev s) = opts s"
  using happen_unlocked [of s ev] by (simp add: unlocked_def)

text \<open>What draining has fixed once and for all.\<close>

definition drained :: "supervisor \<Rightarrow> supervisor \<Rightarrow> bool" where
  "drained s t \<longleftrightarrow> draining t \<and> created_total (metrics t) = created_total (metrics s) \<and>
     set (Sessions t) \<subseteq> set (Sessions s) \<and> wg t \<le> wg s \<and> work t \<le> work s \<and> opts t = opts s \<and> now s \<le> now t \<and>
     (\<forall>c < length (ctxs t). after_func (ctxs t ! c) \<noteq> None \<longrightarrow> c < length (ctxs s) \<and>
        after_func (ctxs s ! c) \<noteq> None \<and> deadline (ctxs t ! c) = deadline (ctxs s ! c))"

lemma drained_refl: "draining s \<Longrightarrow> drained s s"
  by (simp add: drained_def)

lemma drained_trans: "drained s t \<Longrightarrow> drained t u \<Longrightarrow> drained s u"
  unfolding drained_def by (intro conjI allI impI) (auto dest: spec)

lemma drainedI:
  assumes "draining t" "created_total (metrics t) = created_total (metrics s)" "set (Sessions t) \<subseteq> set (Sessions s)"
    "wg t \<le> wg s" "work t \<le> work s" "opts t = opts s" "now s \<le> now t" "list_all2 ctx_le (ctxs s) (ctxs t)"
  shows "drained s t"
  using assms by (auto simp: drained_def list_all2_conv_all_nth ctx_le_def)

lemma drained_delete:
  assumes "draining s"
  shows "drained s (snd (deleteWithReason fs pf sid r s))"
proof (rule drainedI)
  show "set (Sessions (snd (deleteWithReason fs pf sid r s))) \<subseteq> set (Sessions s)"
    by (cases "map_get (sessions s) sid")
      (auto simp: Sessions_def smap.keys_get deleteWithReason_absent deleteWithReason_present smap.get_del
        split: if_splits)
  show "created_total (metrics (snd (deleteWithReason fs pf sid r s))) = created_total (metrics s)"
    by (cases "map_get (sessions s) sid") (simp_all add: deleteWithReason_absent deleteWithReason_present)
qed (simp_all add: assms work_def deleteWithReason_ctxs_le)

lemma drained_ran:
  assumes "drained s d" "sessions t = sessions d" "metrics t = metrics d" "ctxs t = ran c (ctxs d)"
    "draining t = draining d" "wg t = wg d" "launches t = launches d" "opts t = opts d" "now t = now d"
  shows "drained s t"
  using assms by (auto simp: drained_def Sessions_def work_def ran_nth split: if_splits)

lemma drained_step:
  assumes "sup_inv s" "draining s" "step s l t"
  shows "drained s t"
  using assms(3)
proof cases
  case (act ev)
  have "unlocked s (happen ev s)" by (rule happen_unlocked)
  then show ?thesis
    using act assms(2) happen_wg happen_work other_calls_readings(2)
    by (intro drainedI) (auto simp: unlocked_def Sessions_def)
next
  case (create_begin env ci f)
  then show ?thesis using assms(2) drained_refl by (cases rule: create_begin_cases [of s env ci f]) auto
next
  case (create_end p w res t n)
  then show ?thesis using assms(1,2) by (simp add: sup_inv_def table_inv_def)
next
  case (delete fs pf sid)
  then show ?thesis using drained_delete [OF assms(2)] by (simp add: Delete_def)
next
  case (after c fs pf)
  then obtain k lg where k: "after_func (ctxs s ! c) = Some (k, lg)" by auto
  note e = after_done_eq [OF after(5) k refl, of fs pf]
  show ?thesis
    unfolding after(2)
    by (rule drained_ran [OF drained_delete [OF assms(2)] e]) simp_all
next
  case drain
  then show ?thesis by (intro drainedI) (simp_all add: Drain_def Sessions_def work_def list_all2_refl)
next
  case (compute_begin parent)
  then show ?thesis
    using assms(2) by (auto simp: drained_def compute_begin_def Let_def Sessions_def work_def todo_def nth_append)
next
  case (compute_end c w res t n)
  then show ?thesis
    using assms(2) by (intro drainedI) (simp_all add: Sessions_def work_def cancel_ctx_le)
qed

lemma drained_run:
  assumes "run step s ls t" "sup_inv s" "draining s"
  shows "drained s t"
  using assms
proof (induction rule: run.induct)
  case (run_Cons s l t ls u)
  have d: "drained s t" using drained_step run_Cons.hyps(1) run_Cons.prems by blast
  moreover have "drained t u"
    using run_Cons.IH sup_inv_step [OF run_Cons.prems(1) run_Cons.hyps(1)] d by (simp add: drained_def)
  ultimately show ?case by (rule drained_trans)
qed (simp add: drained_refl)

text \<open>
  C6.  Once draining, always fewer.  From a reachable state in which \<open>Drain\<close> has run, whatever happens
  next: the program keeps draining, no session is created any more, every creation is refused
  without a change, the sessions are among those that were there, and the counter of the \<open>WaitGroup\<close>
  never grows.
\<close>

theorem drain_monotone:
  assumes "reach starts step s" and "draining s" and "run step s ls t"
  shows "draining t \<and> created_total (metrics t) = created_total (metrics s) \<and>
    (\<forall>env ci f. create env ci f t = (Return (Inl ErrDraining), t)) \<and>
    set (Sessions t) \<subseteq> set (Sessions s) \<and> wg t \<le> wg s"
  using drained_run [OF assms(3) sup.inv_reach [OF assms(1)] assms(2)]
  by (simp add: drained_def create_def create_begin_def)

text \<open>A reachable state that drains with a session, and what happens when its time is over.\<close>

lemma sample_drained:
  "\<exists>s k l. reach starts step s \<and> draining s \<and> \<not> crashed s \<and> Sessions s = [k] \<and> length (ctxs s) = 1 \<and>
     SessionTimeout s = 300 * second \<and> now s = 1000000 \<and> launches s = [l] \<and> l_ctx l = 0 \<and> l_tracked l \<and>
     l_phase l = Spawned \<and> ctx_err (ctxs s ! 0) = None"
proof -
  obtain t k l where t: "reach starts step t" "\<not> crashed t" "mtx t = None" "Sessions t = [k]" "length (ctxs t) = 1"
    "SessionTimeout t = 300 * second" "now t = 1000000" "launches t = [l]" "l_ctx l = 0" "l_tracked l"
    "l_phase l = Spawned" "ctx_err (ctxs t ! 0) = None" using sample_created by blast
  have "reach starts step (Drain t)" by (rule reach.reach_step [OF t(1) step.drain [OF t(2,3)]])
  then show ?thesis
    using t by (intro exI [of _ "Drain t"] exI [of _ k] exI [of _ l]) (simp add: Drain_def Sessions_def SessionTimeout_def)
qed

theorem drain_monotone_witness:
  "\<exists>s t ls. reach starts step s \<and> run step s ls t \<and> wg t \<le> wg s \<and> draining t \<and> now s < now t"
proof -
  obtain s where s: "reach starts step s" "draining s" "\<not> crashed s" using sample_drained by blast
  have r: "run step s [Act (Tick 5)] (happen (Tick 5) s)"
    by (simp add: run_Cons_iff step.act [OF s(3)] del: happen.simps)
  show ?thesis
    using drain_monotone [OF s(1,2) r] s(1) r
    by (intro exI [of _ s] exI [of _ "happen (Tick 5) s"] exI [of _ "[Act (Tick 5)]"]) simp
qed

text \<open>
  The bound the shutdown relies on.  Once the session timeout has passed since a state in which
  the program was draining, and the timers that are due have fired, the context of every
  session goroutine is done: chromium has been told to stop in all of them, so the only thing
  \<open>Wait\<close> can still be waiting for is their end.
\<close>

theorem drain_deadline:
  assumes "reach starts step s" and "draining s" and "run step s ls t"
    and "now s + SessionTimeout s \<le> now t"
    and "\<forall>c \<in> set (ctxs t). \<forall>d. deadline c = Some d \<longrightarrow> d \<le> now t \<longrightarrow> ctx_err c \<noteq> None"
  shows "\<forall>l \<in> set (launches t). l_tracked l \<longrightarrow> ctx_err (ctxs t ! l_ctx l) \<noteq> None"
proof (intro ballI impI)
  fix l assume l: "l \<in> set (launches t)" "l_tracked l"
  have inv: "sup_inv s" "sup_inv t"
    using sup.inv_reach [OF assms(1)] sup.inv_run [OF assms(3)] by blast+
  have d: "drained s t" by (rule drained_run [OF assms(3) inv(1) assms(2)])
  have c: "l_ctx l < length (ctxs t)" "after_func (ctxs t ! l_ctx l) \<noteq> None"
    using l inv(2) by (auto simp: sup_inv_def launch_inv_def)
  then have s: "l_ctx l < length (ctxs s)" "after_func (ctxs s ! l_ctx l) \<noteq> None"
    "deadline (ctxs t ! l_ctx l) = deadline (ctxs s ! l_ctx l)" using d by (auto simp: drained_def)
  have i: "ctx_inv s" using inv(1) by (simp add: sup_inv_def)
  have "deadline (ctxs t ! l_ctx l) = Some (ctx_start (ctxs s ! l_ctx l) + SessionTimeout s)"
    using ctx_invD(8) [OF i s(1,2)] s(3) by simp
  moreover have "ctx_start (ctxs s ! l_ctx l) + SessionTimeout s \<le> now t"
    using ctx_invD(6) [OF i s(1)] assms(4) by linarith
  ultimately show "ctx_err (ctxs t ! l_ctx l) \<noteq> None"
    using assms(5) c(1) nth_mem by blast
qed

theorem drain_deadline_witness:
  "\<exists>s t ls l. reach starts step s \<and> draining s \<and> run step s ls t \<and> launches t = [l] \<and> l_tracked l \<and>
     ctx_err (ctxs s ! l_ctx l) = None \<and> ctx_err (ctxs t ! l_ctx l) \<noteq> None"
proof -
  obtain s l where s: "reach starts step s" "draining s" "\<not> crashed s" "length (ctxs s) = 1"
    "SessionTimeout s = 300 * second" "launches s = [l]" "l_ctx l = 0" "l_tracked l" "ctx_err (ctxs s ! 0) = None"
    using sample_drained by blast
  define u where "u = happen (Tick 300000000000) s"
  define t where "t = happen (Expire 0) u"
  have r: "run step s [Act (Tick 300000000000), Act (Expire 0)] t"
    using step.act [OF s(3), of "Tick 300000000000"] step.act [of u "Expire 0"] s(3)
    by (auto simp: run_Cons_iff t_def u_def)
  have inv: "ctx_inv s" "launch_inv s" using sup.inv_reach [OF s(1)] by (simp_all add: sup_inv_def)
  have lt: "0 < length (ctxs s)" using s(4) by simp
  have "after_func (ctxs s ! 0) \<noteq> None" using inv(2) s(6,7,8) by (simp add: launch_inv_def)
  from ctx_invD(8) [OF inv(1) lt this] ctx_invD(6) [OF inv(1) lt]
  have t: "length (ctxs t) = 1" "ctx_err (ctxs t ! 0) \<noteq> None" "launches t = [l]" "now t = now s + 300 * second"
    using s by (auto simp: t_def u_def expire_def)
  have fired: "\<forall>c \<in> set (ctxs t). \<forall>d. deadline c = Some d \<longrightarrow> d \<le> now t \<longrightarrow> ctx_err c \<noteq> None"
    using t(1,2) by (auto simp: in_set_conv_nth)
  have "\<forall>l \<in> set (launches t). l_tracked l \<longrightarrow> ctx_err (ctxs t ! l_ctx l) \<noteq> None"
    by (rule drain_deadline [OF s(1,2) r _ fired]) (simp add: t(4) s(5))
  then show ?thesis using s r t(3) by (metis list.set_intros(1))
qed

text \<open>
  C17.  \<open>Wait\<close> ends.  The measure \<open>work\<close> counts the starts and ends of chromium that are still to come:
  \<open>Wait\<close> returns when it is zero; while it is not, some goroutine of a session has its next part
  to do, and doing it makes the measure smaller, whatever the system answers; and once the
  program drains, no step of any kind makes it larger.
\<close>

theorem wait_progress:
  assumes "reach starts step s" and "\<not> crashed s"
  shows "(work s = 0 \<longleftrightarrow> Wait_returns s) \<and>
    (0 < work s \<longrightarrow> (\<exists>i < length (launches s). l_tracked (launches s ! i) \<and>
       ((\<forall>e. work (happen (GoLaunch e i) s) < work s) \<or> (\<forall>e. work (happen (ChromiumExit e i) s) < work s)))) \<and>
    (draining s \<longrightarrow> (\<forall>l t. step s l t \<longrightarrow> work t \<le> work s))"
proof (intro conjI impI allI)
  have inv: "sup_inv s" by (rule sup.inv_reach [OF assms(1)])
  then have "wg s = int (length (filter counted (launches s)))" by (simp add: sup_inv_def launch_inv_def)
  moreover have "todo l = 0 \<longleftrightarrow> \<not> counted l" for l
    by (auto simp: todo_def counted_def split: phase.splits)
  then have "work s = 0 \<longleftrightarrow> (\<forall>l \<in> set (launches s). \<not> counted l)" by (simp add: work_def)
  ultimately show "work s = 0 \<longleftrightarrow> Wait_returns s" by (simp add: Wait_returns_def filter_empty_conv)
  show "work t \<le> work s" if "draining s" "step s l t" for l t
    using drained_step [OF inv that] by (simp add: drained_def)
  show "\<exists>i < length (launches s). l_tracked (launches s ! i) \<and>
       ((\<forall>e. work (happen (GoLaunch e i) s) < work s) \<or> (\<forall>e. work (happen (ChromiumExit e i) s) < work s))"
    if w: "0 < work s"
  proof -
    have "\<exists>l \<in> set (launches s). todo l \<noteq> 0"
      using w unfolding work_def by (rule sum_list_pos_ex)
    then obtain i where i: "i < length (launches s)" "todo (launches s ! i) \<noteq> 0" by (auto simp: in_set_conv_nth)
    then have tr: "l_tracked (launches s ! i)" by (simp add: todo_def split: if_splits)
    show ?thesis
    proof (cases "l_phase (launches s ! i)")
      case Spawned
      then have "work (happen (GoLaunch e i) s) < work s" for e
        using work_begin(2) [OF i(1) Spawned tr] i(1) assms(2) by simp
      then show ?thesis using i(1) tr by blast
    next
      case (Running cmd d t0)
      then have "work (happen (ChromiumExit e i) s) < work s" for e
        using work_finish(2) [OF i(1) tr Running] i(1) assms(2) by simp
      then show ?thesis using i(1) tr by blast
    next
      case Ended
      then have "todo (launches s ! i) = 0" by (simp add: todo_def split: if_splits)
      with i(2) show ?thesis by simp
    qed
  qed
qed

theorem wait_progress_witness:
  "\<exists>s. reach starts step s \<and> draining s \<and> work s = 2 \<and> \<not> Wait_returns s \<and>
     (\<exists>i < length (launches s). (\<forall>e. work (happen (GoLaunch e i) s) < work s) \<or>
        (\<forall>e. work (happen (ChromiumExit e i) s) < work s))"
proof -
  obtain s l where s: "reach starts step s" "draining s" "\<not> crashed s" "launches s = [l]" "l_tracked l" "l_phase l = Spawned"
    using sample_drained by blast
  have w: "work s = 2" using s(4-6) by (simp add: work_def)
  show ?thesis
    using wait_progress [OF s(1,3)] s(1,2) unfolding w
    by (intro exI [of _ s]) (auto simp: w simp del: happen.simps)
qed

section \<open>A slot for one session\<close>

text \<open>
  What the supervisor promises to its clients, without contexts, goroutines, time or metrics: a
  slot that holds the id of at most one session, a flag that says it is closed, and one that
  says that a creation is under way.  The events are the calls with the answers clients get.
  \<open>Refuse f e\<close> is a create that gives the error \<open>e\<close> (\<open>f\<close> as in \<open>create\<close>), \<open>Start f\<close> one that goes
  on to probe chromium, \<open>Panics f\<close> one that panics for want of random bytes; \<open>Finish (Some k)\<close> is
  the end of a creation that answers with the id \<open>k\<close>, \<open>Finish None\<close> one that answers with an
  error; \<open>Deleted k b\<close> a \<open>Delete\<close> of \<open>k\<close> that answers \<open>b\<close>; \<open>Expired k\<close> the function registered for
  the session \<open>k\<close>, run when its context is done; \<open>Unseen\<close> what concerns no client.
\<close>

record slot =
  occupant :: "string option"
  closed :: bool
  busy :: bool

datatype slot_event =
    Refuse bool go_error
  | Start bool
  | Panics bool
  | Finish "string option"
  | Deleted string bool
  | Expired string
  | Close
  | Unseen

text \<open>
  Draining refuses every create and nothing else does but, for a create \<open>ifFree\<close>, an occupant.
  A create that is not refused empties the slot; from its start to its end nothing else gets
  at the slot, and only it can put a session there.
\<close>

fun slot_allows :: "slot \<Rightarrow> slot_event \<Rightarrow> bool" where
  "slot_allows a (Refuse f e) \<longleftrightarrow> \<not> busy a \<and>
     (if closed a then e = ErrDraining else f \<and> occupant a \<noteq> None \<and> e = ErrSessionExists)"
| "slot_allows a (Start f) \<longleftrightarrow> \<not> busy a \<and> \<not> closed a \<and> (f \<longrightarrow> occupant a = None)"
| "slot_allows a (Panics f) \<longleftrightarrow> \<not> busy a \<and> \<not> closed a \<and> (f \<longrightarrow> occupant a = None)"
| "slot_allows a (Finish r) \<longleftrightarrow> busy a \<and> \<not> closed a \<and> occupant a = None"
| "slot_allows a (Deleted k b) \<longleftrightarrow> \<not> busy a \<and> (b \<longleftrightarrow> occupant a = Some k)"
| "slot_allows a (Expired k) \<longleftrightarrow> \<not> busy a"
| "slot_allows a Close \<longleftrightarrow> \<not> busy a"
| "slot_allows a Unseen \<longleftrightarrow> True"

fun slot_next :: "slot \<Rightarrow> slot_event \<Rightarrow> slot" where
  "slot_next a (Start f) = a\<lparr>occupant := None, busy := True\<rparr>"
| "slot_next a (Panics f) = a\<lparr>occupant := None\<rparr>"
| "slot_next a (Finish r) = a\<lparr>occupant := r, busy := False\<rparr>"
| "slot_next a (Deleted k b) = (if b then a\<lparr>occupant := None\<rparr> else a)"
| "slot_next a (Expired k) = (if occupant a = Some k then a\<lparr>occupant := None\<rparr> else a)"
| "slot_next a Close = a\<lparr>closed := True\<rparr>"
| "slot_next a e = a"

definition slot_step :: "slot \<Rightarrow> slot_event \<Rightarrow> slot \<Rightarrow> bool" where
  "slot_step a e b \<longleftrightarrow> slot_allows a e \<and> b = slot_next a e"

definition free_slot :: slot where
  "free_slot = \<lparr>occupant = None, closed = False, busy = False\<rparr>"

text \<open>The slot in a state of the supervisor, and the event of a step, from what the code answers.\<close>

definition slot_of :: "supervisor \<Rightarrow> slot" where
  "slot_of s = \<lparr>occupant = (case Sessions s of [] \<Rightarrow> None | k # _ \<Rightarrow> Some k), closed = draining s, busy = (mtx s \<noteq> None)\<rparr>"

fun observed :: "supervisor \<Rightarrow> label \<Rightarrow> slot_event" where
  "observed s (CreateBegin env ci f) =
     (case fst (create_begin env ci f s) of Refused e \<Rightarrow> Refuse f e | Panicked m \<Rightarrow> Panics f | Probing p \<Rightarrow> Start f)"
| "observed s (CreateEnd w) =
     (case mtx s of
        None \<Rightarrow> Unseen
      | Some p \<Rightarrow>
          (case fst (create_end p (fst (Version w (pending_deadline p s) (p_start p))) s) of
             Inl e \<Rightarrow> Finish None
           | Inr si \<Rightarrow> Finish (Some (ID si))))"
| "observed s (DeleteCall fs pf sid) = Deleted sid (fst (Delete fs pf sid s))"
| "observed s (AfterDone fs pf c) = (case after_func (ctxs s ! c) of None \<Rightarrow> Unseen | Some (sid, lg) \<Rightarrow> Expired sid)"
| "observed s DrainCall = Close"
| "observed s _ = Unseen"

lemma slot_same:
  "sessions t = sessions s \<Longrightarrow> draining t = draining s \<Longrightarrow> mtx t = mtx s \<Longrightarrow> slot_step (slot_of s) Unseen (slot_of t)"
  by (simp add: slot_of_def slot_step_def Sessions_def)

lemma slot_of_simps [simp]:
  "occupant (slot_of s) = None \<longleftrightarrow> sessions s = []" "closed (slot_of s) = draining s" "busy (slot_of s) \<longleftrightarrow> mtx s \<noteq> None"
  by (cases "sessions s"; auto simp: slot_of_def Sessions_def)+

lemma slot_emptied: "sessions t = [] \<Longrightarrow> slot_of t = \<lparr>occupant = None, closed = draining t, busy = (mtx t \<noteq> None)\<rparr>"
  by (simp add: slot_of_def Sessions_def)

lemma slot_of_clear: "(slot_of s)\<lparr>occupant := None\<rparr> = \<lparr>occupant = None, closed = draining s, busy = (mtx s \<noteq> None)\<rparr>"
  by (simp add: slot_of_def)

lemma slot_occupant:
  assumes "length (sessions s) \<le> 1"
  shows "occupant (slot_of s) = Some k \<longleftrightarrow> map_get (sessions s) k \<noteq> None"
  using assms by (cases "sessions s") (auto simp: slot_of_def Sessions_def)

lemma deleteWithReason_sessions:
  "sessions (snd (deleteWithReason fs pf k r s)) = map_del k (sessions s)"
  by (cases "map_get (sessions s) k") (simp_all add: deleteWithReason_absent deleteWithReason_present map_del_absent)

lemma slot_delete:
  assumes "length (sessions s) \<le> 1" "sessions t = map_del k (sessions s)" "draining t = draining s" "mtx t = mtx s"
  shows "slot_of t = (if occupant (slot_of s) = Some k then (slot_of s)\<lparr>occupant := None\<rparr> else slot_of s)"
proof (cases "map_get (sessions s) k")
  case None
  then show ?thesis
    using assms slot_occupant [OF assms(1), of k] by (simp add: map_del_absent slot_of_def Sessions_def)
next
  case (Some sess)
  then show ?thesis
    using assms slot_occupant [OF assms(1), of k] single_session [OF assms(1) Some] by (simp add: slot_of_def Sessions_def)
qed

lemma slot_sim_step:
  assumes "sup_inv s" "step s l t"
  shows "slot_step (slot_of s) (observed s l) (slot_of t)"
  using assms(2)
proof cases
  case (act ev)
  then show ?thesis using happen_unlocked [of s ev] by (simp add: slot_same unlocked_def)
next
  case (create_begin env ci f)
  show ?thesis
  proof (cases rule: create_begin_cases [of s env ci f])
    case (panicked m)
    then show ?thesis using create_begin by (simp add: slot_step_def slot_emptied slot_of_clear)
  next
    case (probing p s1)
    then show ?thesis
      using create_begin create_begin_probing(9,13,14) [OF probing(4)] by (simp add: slot_step_def slot_emptied slot_of_clear)
  qed (use create_begin in \<open>simp_all add: slot_step_def\<close>)
next
  case (create_end p w res u n)
  have e: "sessions s = []" "\<not> draining s" using assms(1) create_end by (auto simp: sup_inv_def table_inv_def)
  have v: "fst (Version w (pending_deadline p s) (p_start p)) = res" using create_end by simp
  show ?thesis
    using e create_end(4) v unfolding create_end(1,2)
    by (cases res) (simp_all add: slot_step_def slot_emptied slot_of_def Sessions_def)
next
  case (delete fs pf sid)
  have one: "length (sessions s) \<le> 1" using assms(1) by (simp add: sup_inv_def table_inv_def)
  have "slot_of t = (if occupant (slot_of s) = Some sid then (slot_of s)\<lparr>occupant := None\<rparr> else slot_of s)"
    using delete by (intro slot_delete [OF one]) (simp_all add: Delete_def deleteWithReason_sessions)
  moreover have "fst (Delete fs pf sid s) \<longleftrightarrow> occupant (slot_of s) = Some sid"
    unfolding slot_occupant [OF one]
    by (cases "map_get (sessions s) sid") (simp_all add: Delete_def deleteWithReason_absent deleteWithReason_present)
  ultimately show ?thesis using delete by (simp add: slot_step_def)
next
  case (after c fs pf)
  then obtain k lg where k: "after_func (ctxs s ! c) = Some (k, lg)" by auto
  have one: "length (sessions s) \<le> 1" using assms(1) by (simp add: sup_inv_def table_inv_def)
  have "slot_of t = (if occupant (slot_of s) = Some k then (slot_of s)\<lparr>occupant := None\<rparr> else slot_of s)"
    using after after_done_eq(1) [OF after(5) k refl, of fs pf]
    by (intro slot_delete [OF one]) (simp_all add: deleteWithReason_sessions)
  then show ?thesis using after k by (simp add: slot_step_def)
next
  case drain
  then show ?thesis by (simp add: slot_step_def slot_of_def Drain_def Sessions_def)
next
  case (compute_begin parent)
  then show ?thesis by (simp add: slot_same compute_begin_def Let_def)
next
  case (compute_end c w res u n)
  then show ?thesis by (simp add: slot_same)
qed

interpretation slot: simulation starts step sup_inv observed slot_of "\<lambda>a. a = free_slot" slot_step
proof
  show "slot_of s = free_slot" if "starts s" for s
    using that by (auto simp: starts_def free_slot_def slot_of_def New_def Sessions_def)
qed (rule slot_sim_step)

text \<open>
  C3.  The supervisor implements the slot.  For every run of the program from its start, in any
  interleaving, the events its clients see, each call with the answer it got, are a run of the
  abstract slot from the free slot to the slot of the state reached, whose occupant is the
  session \<open>Sessions\<close> lists.  So each answer is the one the slot allows at that point: a create
  is answered \<open>ErrDraining\<close> if and only if the program drains, \<open>ErrSessionExists\<close> if and only if it
  was to be \<open>ifFree\<close> and a session is there, a \<open>Delete\<close> finds exactly the occupant, and
  no call gets between the start of a creation and its end.
\<close>

theorem supervisor_implements_slot:
  assumes "starts s" and "run step s ls t"
  shows "(\<exists>es. trace step observed s ls es t) \<and>
    (\<forall>es. trace step observed s ls es t \<longrightarrow> run slot_step free_slot es (slot_of t)) \<and>
    set_option (occupant (slot_of t)) = set (Sessions t)"
proof (intro conjI allI impI)
  show "\<exists>es. trace step observed s ls es t" by (rule run_trace [OF assms(2)])
  show "run slot_step free_slot es (slot_of t)" if "trace step observed s ls es t" for es
    using slot.sim_trace [OF assms(1) that] by metis
  have "length (sessions t) \<le> 1"
    using sup.inv_run [OF assms(2)] sup_inv_starts [OF assms(1)] by (simp add: sup_inv_def table_inv_def)
  then show "set_option (occupant (slot_of t)) = set (Sessions t)"
    by (cases "sessions t") (auto simp: slot_of_def Sessions_def)
qed

lemma creation_trace:
  assumes "run step s creation t" "sup_inv s" "\<not> draining s" "Sessions t = [k]"
  shows "trace step observed s creation [Start False, Unseen, Finish (Some k)] t"
proof -
  obtain es where es: "trace step observed s creation es t" using run_trace [OF assms(1)] by blast
  obtain m where m: "es = [observed s (CreateBegin (sample_env answering) sample_check False), Unseen, observed m (CreateEnd answering)]"
    using es by (auto simp: creation_def trace_Cons_iff)
  have start: "observed s (CreateBegin (sample_env answering) sample_check False) = Start False"
    by (cases rule: create_begin_cases [of s "sample_env answering" sample_check False])
      (use assms(3) in \<open>simp_all add: sample_env_def randString_def\<close>)
  have "run slot_step (slot_of s) es (slot_of t)" by (rule slot.sim_run [OF es assms(2)])
  then have "slot_of t = slot_next ((slot_of s)\<lparr>occupant := None, busy := True\<rparr>) (observed m (CreateEnd answering))"
    unfolding m start by (simp add: run_Cons_iff slot_step_def)
  moreover have "occupant (slot_of t) = Some k" using assms(4) by (simp add: slot_of_def)
  ultimately have "observed m (CreateEnd answering) = Finish (Some k)"
    by (auto split: option.splits sum.splits)
  then show ?thesis using es unfolding m start by simp
qed

theorem supervisor_implements_slot_witness:
  "\<exists>k t. trace step observed sample_start (creation @ [DrainCall, CreateBegin (sample_env answering) sample_check True])
       [Start False, Unseen, Finish (Some k), Close, Refuse True ErrDraining] t \<and>
     run slot_step free_slot [Start False, Unseen, Finish (Some k), Close, Refuse True ErrDraining] (slot_of t)"
proof -
  obtain t k where t: "run step sample_start creation t" "\<not> crashed t" "mtx t = None" "Sessions t = [k]"
    using sample_created by blast
  have c: "trace step observed sample_start creation [Start False, Unseen, Finish (Some k)] t"
    by (rule creation_trace [OF t(1) sup_inv_starts [OF sample_starts] _ t(4)]) simp
  have r: "fst (create_begin (sample_env answering) sample_check True (Drain t)) = Refused ErrDraining"
    "snd (create_begin (sample_env answering) sample_check True (Drain t)) = Drain t"
    by (simp_all add: create_begin_def Drain_def)
  have "step t DrainCall (Drain t)" by (rule step.drain [OF t(2,3)])
  moreover have "step (Drain t) (CreateBegin (sample_env answering) sample_check True) (Drain t)"
    using step.create_begin [of "Drain t" "sample_env answering" sample_check True] t(2,3) r(2) by (simp add: Drain_def)
  ultimately have "trace step observed t [DrainCall, CreateBegin (sample_env answering) sample_check True]
      [observed t DrainCall, observed (Drain t) (CreateBegin (sample_env answering) sample_check True)] (Drain t)"
    by (rule trace_Cons [OF _ trace_Cons [OF _ trace_Nil]])
  then have d: "trace step observed t [DrainCall, CreateBegin (sample_env answering) sample_check True]
      [Close, Refuse True ErrDraining] (Drain t)" using r(1) by simp
  have s: "trace step observed sample_start (creation @ [DrainCall, CreateBegin (sample_env answering) sample_check True])
      [Start False, Unseen, Finish (Some k), Close, Refuse True ErrDraining] (Drain t)"
    using trace_append [OF c d] by simp
  then have "run step sample_start (creation @ [DrainCall, CreateBegin (sample_env answering) sample_check True]) (Drain t)"
    by (rule trace_run [THEN conjunct1])
  from supervisor_implements_slot [OF sample_starts this] s show ?thesis by blast
qed

end
