(* ===== verification/Supervisor_Timeout.thy ===== *)
theory Supervisor_Timeout
  imports Supervisor_Safety
begin

text \<open>
  Timeouts and the browsers they stop: a session is counted as timed out only when its own
  deadline has passed; being told to stop is not having stopped; and the calls of the API, as
  functions, are runs of the step relation.
\<close>

section \<open>Deadlines\<close>

definition timer_ok :: "instant \<Rightarrow> ctx \<Rightarrow> bool" where
  "timer_ok t c \<longleftrightarrow>
     (ctx_err c = Some DeadlineExceeded \<longrightarrow> (case deadline c of None \<Rightarrow> False | Some d \<Rightarrow> d \<le> t))"

definition timer_inv :: "supervisor \<Rightarrow> bool" where
  "timer_inv s \<longleftrightarrow> (\<forall>c \<in> set (ctxs s). timer_ok (now s) c)"

lemma timer_ok_cancelled [simp]: "timer_ok t c \<Longrightarrow> timer_ok t (cancelled c)"
  by (simp add: timer_ok_def cancelled_def)

lemma timer_ok_later: "timer_ok t c \<Longrightarrow> t \<le> u \<Longrightarrow> timer_ok u c"
  by (auto simp: timer_ok_def split: option.splits)

lemma timer_invI:
  assumes "timer_inv s" "now s \<le> now t"
    and "\<And>c. c \<in> set (ctxs t) \<Longrightarrow> c \<in> set (ctxs s) \<or> timer_ok (now t) c"
  shows "timer_inv t"
  unfolding timer_inv_def
proof
  fix c assume "c \<in> set (ctxs t)"
  with assms(3) show "timer_ok (now t) c"
    using assms(1,2) timer_ok_later [of "now s" c "now t"] by (auto simp: timer_inv_def)
qed

lemma in_update: "x \<in> set (xs[i := y]) \<Longrightarrow> x \<in> set xs \<or> i < length xs \<and> x = y"
  using set_update_subset_insert [of xs i y] by (cases "i < length xs") (auto simp: not_less list_update_beyond)

lemma timer_inv_nth: "timer_inv s \<Longrightarrow> i < length (ctxs s) \<Longrightarrow> timer_ok (now s) (ctxs s ! i)"
  by (simp add: timer_inv_def)

lemma timer_inv_cancel:
  assumes "timer_inv s"
  shows "timer_inv (cancel_ctx i s)"
proof (rule timer_invI [OF assms])
  fix c assume "c \<in> set (ctxs (cancel_ctx i s))"
  then show "c \<in> set (ctxs s) \<or> timer_ok (now (cancel_ctx i s)) c"
    using timer_inv_nth [OF assms, of i]
    by (cases "i < length (ctxs s)") (auto simp: cancel_ctx_ctxs dest: in_update)
qed simp

lemma timer_inv_same: "timer_inv s \<Longrightarrow> ctxs t = ctxs s \<Longrightarrow> now t = now s \<Longrightarrow> timer_inv t"
  by (simp add: timer_inv_def)

lemma timer_inv_kill_one: "timer_inv s \<Longrightarrow> timer_inv (kill_one k s)"
proof (cases "map_get (sessions s) k")
  case None
  assume "timer_inv s"
  then show ?thesis using None by - (rule timer_inv_same [of s], simp_all add: kill_one_def delete_def)
next
  case (Some sess)
  assume "timer_inv s"
  then show ?thesis
    by (rule timer_inv_same [OF timer_inv_cancel, of s _ "cancel sess"]) (simp_all add: kill_one_present [OF Some])
qed

lemma timer_inv_kill: "timer_inv s \<Longrightarrow> timer_inv (killExisting s)"
proof -
  have "timer_inv s \<Longrightarrow> timer_inv (fold kill_one ks s)" for ks
    by (induction ks arbitrary: s) (auto intro: timer_inv_kill_one)
  then show "timer_inv s \<Longrightarrow> timer_inv (killExisting s)" by (simp add: killExisting_def)
qed

lemma timer_inv_delete: "timer_inv s \<Longrightarrow> timer_inv (snd (deleteWithReason fs pf k r s))"
proof (cases "map_get (sessions s) k")
  case (Some sess)
  assume "timer_inv s"
  then show ?thesis
    by (rule timer_inv_same [OF timer_inv_cancel, of s _ "cancel sess"]) (simp_all add: deleteWithReason_present [OF Some])
qed (simp add: deleteWithReason_absent)

lemma timer_ok_ran: "timer_ok t (c\<lparr>after_ran := b\<rparr>) = timer_ok t c"
  by (simp add: timer_ok_def)

lemma timer_inv_ran:
  assumes "timer_inv d" "c < length (ctxs d)" "ctxs t = ran c (ctxs d)" "now t = now d"
  shows "timer_inv t"
proof (rule timer_invI [OF assms(1)])
  fix x assume "x \<in> set (ctxs t)"
  then show "x \<in> set (ctxs d) \<or> timer_ok (now t) x"
    using timer_inv_nth [OF assms(1,2)] by (auto simp: assms(3,4) ran_def timer_ok_ran dest: in_update)
qed (simp add: assms(4))

lemma timer_inv_append:
  "timer_inv s \<Longrightarrow> ctxs t = ctxs s @ [n] \<Longrightarrow> ctx_err n = None \<Longrightarrow> now t = now s \<Longrightarrow> timer_inv t"
  by (auto simp: timer_inv_def timer_ok_def)

lemma timer_inv_happen: "timer_inv s \<Longrightarrow> timer_inv (happen ev s)"
proof (cases ev)
  case (Expire c)
  assume "timer_inv s"
  moreover have "now (expire c s) = now s" by (simp add: expire_def)
  moreover have "x \<in> set (ctxs s) \<or> timer_ok (now s) x" if "x \<in> set (ctxs (expire c s))" for x
    using that by (auto simp: expire_def timer_ok_def split: if_splits dest: in_update)
  ultimately have "timer_inv (expire c s)" by - (rule timer_invI [of s], auto)
  with \<open>timer_inv s\<close> show ?thesis by (simp add: Expire)
next
  case (Tick d)
  assume "timer_inv s"
  then show ?thesis by (rule timer_invI) (simp_all add: Tick)
next
  case (GoLaunch e i)
  assume "timer_inv s"
  then show ?thesis by (rule timer_inv_same) (simp_all add: GoLaunch)
next
  case (ChromiumExit e i)
  assume "timer_inv s"
  then show ?thesis by (rule timer_inv_same) (simp_all add: ChromiumExit)
qed

lemma timer_inv_step:
  assumes "timer_inv s" "step s l t"
  shows "timer_inv t"
  using assms(2)
proof cases
  case (act ev)
  then show ?thesis using assms(1) timer_inv_happen by simp
next
  case (create_begin env ci f)
  then have t: "t = snd (create_begin env ci f s)" by simp
  show ?thesis
  proof (cases rule: create_begin_cases [of s env ci f])
    case (probing p s1)
    note b = create_begin_probing [OF probing(4)]
    show ?thesis
      unfolding t probing(4) snd_conv by (rule timer_inv_append [OF timer_inv_kill [OF assms(1)] b(18)]) (simp_all add: b(16))
  qed (simp_all add: t assms(1) timer_inv_kill)
next
  case (create_end p w res u n)
  show ?thesis
  proof (cases res)
    case (Inl e)
    show ?thesis unfolding create_end(2) Inl by (rule timer_inv_same [OF timer_inv_cancel [OF assms(1), of "p_ctx p"]]) simp_all
  next
    case (Inr vi)
    show ?thesis unfolding create_end(2) Inr by (rule timer_inv_same [OF assms(1)]) simp_all
  qed
next
  case (delete fs pf sid)
  then show ?thesis using assms(1) timer_inv_delete by (simp add: Delete_def)
next
  case (after c fs pf)
  then obtain k lg where k: "after_func (ctxs s ! c) = Some (k, lg)" by auto
  have "length (ctxs (snd (deleteWithReason fs pf k TerminationReasonTimeout s))) = length (ctxs s)"
    using deleteWithReason_ctxs_le [of s fs pf k TerminationReasonTimeout] by (simp add: list_all2_lengthD)
  then have "c < length (ctxs (snd (deleteWithReason fs pf k TerminationReasonTimeout s)))" using after(5) by simp
  then show ?thesis
    unfolding after(2)
    by (rule timer_inv_ran [OF timer_inv_delete [OF assms(1)] _ after_done_eq(3) [OF after(5) k refl]]) simp
next
  case drain
  then show ?thesis using assms(1) by (simp add: Drain_def timer_inv_def)
next
  case (compute_begin parent)
  show ?thesis
    unfolding compute_begin(2) by (rule timer_inv_append [OF assms(1), of _ "\<lparr>ctx_start = now s, deadline = parent, ctx_err = None,
          after_func = None, after_ran = False\<rparr>"]) (simp_all add: compute_begin_def Let_def)
next
  case (compute_end c w res u n)
  show ?thesis
    unfolding compute_end(2) by (rule timer_inv_same [OF timer_inv_cancel [OF assms(1), of c]]) simp_all
qed

interpretation timers: invariant_system starts step timer_inv
proof
  show "timer_inv s" if "starts s" for s
    using that by (auto simp: starts_def New_def timer_inv_def)
qed (rule timer_inv_step)

section \<open>What counts as a timeout\<close>

lemma kill_timeouts:
  "terminated_total TerminationReasonTimeout (metrics (fold kill_one ks s)) =
   terminated_total TerminationReasonTimeout (metrics s)"
proof (induction ks arbitrary: s)
  case (Cons k ks)
  have "terminated_total TerminationReasonTimeout (metrics (kill_one k s)) =
      terminated_total TerminationReasonTimeout (metrics s)"
    by (cases "map_get (sessions s) k")
      (simp_all add: kill_one_present(3) reason_defs, simp add: kill_one_def delete_def)
  with Cons.IH [of "kill_one k s"] show ?case by simp
qed simp

lemma timeout_step:
  assumes "step s l t"
    and "terminated_total TerminationReasonTimeout (metrics t) \<noteq> terminated_total TerminationReasonTimeout (metrics s)"
  obtains fs pf c k lg sess where "l = AfterDone fs pf c" "c < length (ctxs s)" "ctx_err (ctxs s ! c) \<noteq> None"
    "after_func (ctxs s ! c) = Some (k, lg)" "map_get (sessions s) k = Some sess" "sessions t = map_del k (sessions s)"
    "terminated_total TerminationReasonTimeout (metrics t) = Suc (terminated_total TerminationReasonTimeout (metrics s))"
  using assms(1)
proof cases
  case (act ev)
  then show thesis
    using assms(2) happen_unlocked [of s ev] other_calls_readings(3) [of "metrics s" "metrics t"] by (simp add: unlocked_def)
next
  case (create_begin env ci f)
  then show thesis using assms(2)
    by (cases rule: create_begin_cases [of s env ci f])
      (simp_all add: killExisting_def kill_timeouts create_begin_probing(10))
next
  case (create_end p w res u n)
  then show thesis using assms(2) by (cases res) simp_all
next
  case (delete fs pf sid)
  then show thesis using assms(2)
    by (cases "map_get (sessions s) sid")
      (simp_all add: Delete_def deleteWithReason_absent deleteWithReason_present reason_defs)
next
  case (after c fs pf)
  then obtain k lg where k: "after_func (ctxs s ! c) = Some (k, lg)" by auto
  note e = after_done_eq [OF after(5) k refl, of fs pf]
  have "map_get (sessions s) k \<noteq> None"
    using assms(2) unfolding after(2) e(2) by (cases "map_get (sessions s) k") (simp_all add: deleteWithReason_absent)
  then obtain sess where sess: "map_get (sessions s) k = Some sess" by auto
  show thesis
    by (rule that [OF after(1,5,6) k sess]) (simp_all add: after(2) e deleteWithReason_present [OF sess])
next
  case drain
  then show thesis using assms(2) by (simp add: Drain_def)
next
  case (compute_begin parent)
  then show thesis using assms(2) by (simp add: compute_begin_def Let_def)
next
  case (compute_end c w res u n)
  then show thesis using assms(2) by simp
qed

text \<open>
  C15.  A timeout is a timeout.  Provided the random ids in use are different, a step that counts a
  termination as \<open>timeout\<close> removes the one session there is, and it does so only after that
  session's own deadline, \<open>SessionTimeout\<close> after its creation began, has passed: sessions that were
  deleted, replaced, or never finished being created are not counted, although the same
  function runs for their contexts too.
\<close>

theorem timeout_after_deadline:
  assumes "reach starts step s" and "step s l t"
    and "terminated_total TerminationReasonTimeout (metrics t) \<noteq> terminated_total TerminationReasonTimeout (metrics s)"
    and "\<forall>c < length (ctxs s). \<forall>d < length (ctxs s). \<forall>k lg lg'.
      after_func (ctxs s ! c) = Some (k, lg) \<longrightarrow> after_func (ctxs s ! d) = Some (k, lg') \<longrightarrow> c = d"
  shows "\<exists>k sess. sessions s = [(k, sess)] \<and> Sessions t = [] \<and>
    ctx_err (ctxs s ! cancel sess) = Some DeadlineExceeded \<and>
    ctx_start (ctxs s ! cancel sess) + SessionTimeout s \<le> now s \<and>
    terminated_total TerminationReasonTimeout (metrics t) = Suc (terminated_total TerminationReasonTimeout (metrics s))"
proof -
  obtain fs pf c k lg sess where a: "c < length (ctxs s)" "ctx_err (ctxs s ! c) \<noteq> None"
    "after_func (ctxs s ! c) = Some (k, lg)" "map_get (sessions s) k = Some sess" "sessions t = map_del k (sessions s)"
    "terminated_total TerminationReasonTimeout (metrics t) = Suc (terminated_total TerminationReasonTimeout (metrics s))"
    by (rule timeout_step [OF assms(2,3)])
  have inv: "table_inv s" "ctx_inv s" using sup.inv_reach [OF assms(1)] by (simp_all add: sup_inv_def)
  have one: "sessions s = [(k, sess)]"
    using inv(1) by (intro single_session [OF _ a(4)]) (simp add: table_inv_def)
  have o: "owner s (cancel sess) k (logger sess)" using a(4) by (simp add: owner_def)
  note oc = ctx_invD(1-3) [OF inv(2) o]
  have c: "cancel sess = c" using assms(4) oc(1,2) a(1,3) by blast
  have err: "ctx_err (ctxs s ! c) = Some DeadlineExceeded" using oc(3) a(2) c by auto
  have "deadline (ctxs s ! c) = Some (ctx_start (ctxs s ! c) + SessionTimeout s)"
    using ctx_invD(8) [OF inv(2) a(1)] a(3) by simp
  then have "ctx_start (ctxs s ! c) + SessionTimeout s \<le> now s"
    using timer_inv_nth [OF timers.inv_reach [OF assms(1)] a(1)] err by (simp add: timer_ok_def)
  then show ?thesis using one a(5,6) err c by (simp add: Sessions_def)
qed

text \<open>A session whose time is over.\<close>

lemma sample_expired:
  "\<exists>s k sess. reach starts step s \<and> \<not> crashed s \<and> mtx s = None \<and> length (ctxs s) = 1 \<and> sessions s = [(k, sess)] \<and>
     cancel sess = 0 \<and> after_func (ctxs s ! 0) = Some (k, logger sess) \<and> \<not> after_ran (ctxs s ! 0) \<and>
     ctx_err (ctxs s ! 0) \<noteq> None"
proof -
  obtain t k where t: "reach starts step t" "\<not> crashed t" "mtx t = None" "Sessions t = [k]" "length (ctxs t) = 1"
    "SessionTimeout t = 300 * second" "ctx_err (ctxs t ! 0) = None" using sample_created by blast
  obtain sess where sess: "sessions t = [(k, sess)]"
    using t(4) by (cases "sessions t") (auto simp: Sessions_def map_keys_def)
  have inv: "ctx_inv t" using sup.inv_reach [OF t(1)] by (simp add: sup_inv_def)
  have o: "owner t (cancel sess) k (logger sess)" using sess by (simp add: owner_def)
  note oc = ctx_invD(1,2,4) [OF inv o]
  have c: "cancel sess = 0" using oc(1) t(5) by simp
  have lt: "0 < length (ctxs t)" using t(5) by simp
  have d: "deadline (ctxs t ! 0) = Some (ctx_start (ctxs t ! 0) + 300 * second)"
    using ctx_invD(8) [OF inv lt] oc(2) c t(6) by simp
  have st: "ctx_start (ctxs t ! 0) \<le> now t" by (rule ctx_invD(6) [OF inv lt])
  define u where "u = happen (Tick 300000000000) t"
  have "run step t [Act (Tick 300000000000), Act (Expire 0)] (happen (Expire 0) u)"
    using step.act [OF t(2), of "Tick 300000000000"] step.act [of u "Expire 0"] t(2)
    by (auto simp: run_Cons_iff u_def)
  then have "reach starts step (happen (Expire 0) u)" by (rule reach_run [OF t(1)])
  moreover have "ctxs (happen (Expire 0) u) = [(ctxs t ! 0)\<lparr>ctx_err := Some DeadlineExceeded\<rparr>]"
    using t(2,5,7) d st by (auto simp: u_def expire_def length_Suc_conv)
  moreover have "sessions (happen (Expire 0) u) = [(k, sess)]" "mtx (happen (Expire 0) u) = None"
    "\<not> crashed (happen (Expire 0) u)"
    using sess t(2,3) by (auto simp: u_def expire_def)
  ultimately show ?thesis
    using oc(2,3) c by (intro exI [of _ "happen (Expire 0) u"] exI [of _ k] exI [of _ sess]) (simp del: happen.simps)
qed

theorem timeout_after_deadline_witness:
  "\<exists>s l t k sess. reach starts step s \<and> step s l t \<and> sessions s = [(k, sess)] \<and> Sessions t = [] \<and>
     terminated_total ''timeout'' (metrics t) = Suc (terminated_total ''timeout'' (metrics s))"
proof -
  obtain s k sess where s: "reach starts step s" "\<not> crashed s" "mtx s = None" "length (ctxs s) = 1"
    "sessions s = [(k, sess)]" "after_func (ctxs s ! 0) = Some (k, logger sess)" "\<not> after_ran (ctxs s ! 0)"
    "ctx_err (ctxs s ! 0) \<noteq> None" using sample_expired by blast
  define t where "t = after_done (sample_fs ''/f'' []) sample_procfs 0 s"
  have lt: "0 < length (ctxs s)" using s(4) by simp
  have st: "step s (AfterDone (sample_fs ''/f'' []) sample_procfs 0) t"
    unfolding t_def by (rule step.after [OF s(2,3) lt s(8) _ s(7)]) (simp add: s(6))
  have sess: "map_get (sessions s) k = Some sess" by (simp add: s(5))
  have m: "terminated_total TerminationReasonTimeout (metrics t) = Suc (terminated_total TerminationReasonTimeout (metrics s))"
    unfolding t_def after_done_eq(2) [OF lt s(6) refl] by (simp add: deleteWithReason_present [OF sess])
  have "\<exists>k sess. sessions s = [(k, sess)] \<and> Sessions t = [] \<and>
    ctx_err (ctxs s ! cancel sess) = Some DeadlineExceeded \<and>
    ctx_start (ctxs s ! cancel sess) + SessionTimeout s \<le> now s \<and>
    terminated_total TerminationReasonTimeout (metrics t) = Suc (terminated_total TerminationReasonTimeout (metrics s))"
    by (rule timeout_after_deadline [OF s(1) st]) (use m s(4) in auto)
  then show ?thesis using s(1) st unfolding TerminationReasonTimeout_def by blast
qed

lemma expired_again: "ctx_err x = e \<Longrightarrow> x\<lparr>ctx_err := e\<rparr> = x"
  by (cases x) simp

text \<open>
  C18.  Sessions end by themselves.  From every reachable state with a session, whatever came before, time
  can pass up to the session's deadline, \<open>SessionTimeout\<close> after its creation began, and then its context
  is done and the function registered for it removes the session from the table and counts one
  timeout: nobody has to delete it.
\<close>

theorem session_times_out:
  assumes "reach starts step s" and "\<not> crashed s" and "mtx s = None" and "map_get (sessions s) k = Some sess"
    and "limit = ctx_start (ctxs s ! cancel sess) + SessionTimeout s"
  shows "\<exists>t. run step s [Act (Tick (nat (limit - now s))), Act (Expire (cancel sess)), AfterDone fs pf (cancel sess)] t \<and>
    Sessions t = [] \<and> active_gauge (metrics t) = 0 \<and> now t = max (now s) limit \<and>
    ctx_err (ctxs t ! cancel sess) = Some DeadlineExceeded \<and>
    terminated_total TerminationReasonTimeout (metrics t) = Suc (terminated_total TerminationReasonTimeout (metrics s))"
proof -
  let ?c = "cancel sess"
  have inv: "table_inv s" "ctx_inv s" using sup.inv_reach [OF assms(1)] by (simp_all add: sup_inv_def)
  have one: "sessions s = [(k, sess)]"
    using inv(1) by (intro single_session [OF _ assms(4)]) (simp add: table_inv_def)
  have "owner s ?c k (logger sess)" using assms(4) by (simp add: owner_def)
  note c = ctx_invD(1-4) [OF inv(2) this]
  have d: "deadline (ctxs s ! ?c) = Some limit" using ctx_invD(8) [OF inv(2) c(1)] c(2) assms(5) by simp
  define u where "u = happen (Tick (nat (limit - now s))) s"
  define v where "v = happen (Expire ?c) u"
  define t where "t = after_done fs pf ?c v"
  have v: "ctxs v = (ctxs s)[?c := (ctxs s ! ?c)\<lparr>ctx_err := Some DeadlineExceeded\<rparr>]" "sessions v = sessions s"
    "metrics v = metrics s" "mtx v = None" "\<not> crashed v" "now v = max (now s) limit"
    using c(1,3) d assms(2,3) by (auto simp: v_def u_def expire_def expired_again)
  have lt: "?c < length (ctxs v)" and af: "after_func (ctxs v ! ?c) = Some (k, logger sess)"
    using c by (simp_all add: v(1))
  have "step s (Act (Tick (nat (limit - now s)))) u" "step u (Act (Expire ?c)) v"
    unfolding u_def v_def by (rule step.act, simp add: assms(2))+
  moreover have "step v (AfterDone fs pf ?c) t"
    unfolding t_def by (rule step.after [OF v(5,4) lt]) (use c in \<open>simp_all add: v(1)\<close>)
  ultimately have "run step s [Act (Tick (nat (limit - now s))), Act (Expire ?c), AfterDone fs pf ?c] t"
    by (auto simp: run_Cons_iff)
  moreover have sess: "map_get (sessions v) k = Some sess" using assms(4) v(2) by simp
  note e = after_done_eq [OF lt af refl, of fs pf, folded t_def]
  have "Sessions t = []" "active_gauge (metrics t) = 0" "ctx_err (ctxs t ! ?c) = Some DeadlineExceeded"
    "terminated_total TerminationReasonTimeout (metrics t) = Suc (terminated_total TerminationReasonTimeout (metrics s))"
    "now t = max (now s) limit"
    using e c(1) one assms(4) v deleteWithReason_present [OF sess]
    by (simp_all add: Sessions_def cancel_ctx_ctxs cancelled_def ran_def t_def map_keys_def)
  ultimately show ?thesis by blast
qed

theorem session_times_out_witness:
  "\<exists>s k (sess :: session) t. reach starts step s \<and> Sessions s = [k] \<and>
     run step s [Act (Tick (nat (ctx_start (ctxs s ! cancel sess) + 300 * second - now s))), Act (Expire (cancel sess)),
       AfterDone (sample_fs ''/f'' []) sample_procfs (cancel sess)] t \<and> Sessions t = []"
proof -
  obtain s k where s: "reach starts step s" "\<not> crashed s" "mtx s = None" "Sessions s = [k]"
    "SessionTimeout s = 300 * second" using sample_created by blast
  obtain sess where "map_get (sessions s) k = Some sess"
    using s(4) by (cases "sessions s") (auto simp: Sessions_def map_keys_def)
  from session_times_out [OF s(1-3) this refl, of "sample_fs ''/f'' []" sample_procfs, unfolded s(5)]
  obtain t where "run step s [Act (Tick (nat (ctx_start (ctxs s ! cancel sess) + 300 * second - now s))), Act (Expire (cancel sess)),
       AfterDone (sample_fs ''/f'' []) sample_procfs (cancel sess)] t" "Sessions t = []" by blast
  with s(1,4) show ?thesis by - (rule exI [of _ s], rule exI [of _ k], rule exI [of _ sess], rule exI [of _ t], intro conjI)
qed

section \<open>Being told to stop and having stopped\<close>

lemma sample_go:
  assumes "\<not> crashed s" "i < length (launches s)" "l_phase (launches s ! i) = Spawned"
  shows "step s (Act (GoLaunch sample_mkdir i)) (launch_begin sample_mkdir i s)"
    "launches (launch_begin sample_mkdir i s) = (launches s)[i := (launches s ! i)\<lparr>l_phase :=
       Running (launch_cmd (opts s) (userAgent s) ''/chromium-tmp/1'') ''/chromium-tmp/1'' (now s)\<rparr>]"
  using step.act [OF assms(1), of "GoLaunch sample_mkdir i"] assms
  by (simp_all add: launch_begin_launches dir_made_def sample_mkdir_def)

lemma launch_cmd_port: "''--remote-debugging-port='' @ ChromiumPort opt \<in> set (cmd_args (launch_cmd opt ua d))"
  by (simp add: launch_cmd_def launch_args_def)

text \<open>A context that is done stays done.\<close>

lemma ctx_done_le:
  "list_all2 ctx_le cs ds \<Longrightarrow> c < length cs \<Longrightarrow> ctx_err (cs ! c) \<noteq> None \<Longrightarrow>
     c < length ds \<and> ctx_err (ds ! c) \<noteq> None"
  using ctxs_le_done [of cs ds c] by (simp add: list_all2_lengthD)

lemma step_stays_done:
  assumes "step s l t" "c < length (ctxs s)" "ctx_err (ctxs s ! c) \<noteq> None"
  shows "c < length (ctxs t) \<and> ctx_err (ctxs t ! c) \<noteq> None"
  using assms(1)
proof cases
  case (act ev)
  then show ?thesis using ctx_done_le [OF _ assms(2,3)] happen_unlocked [of s ev] by (simp add: unlocked_def)
next
  case (create_begin env ci f)
  have k: "c < length (ctxs (killExisting s)) \<and> ctx_err (ctxs (killExisting s) ! c) \<noteq> None"
    by (rule ctx_done_le [OF killExisting_ctxs_le assms(2,3)])
  show ?thesis
    using k assms(2,3) unfolding create_begin(2)
    by (cases rule: create_begin_cases [of s env ci f]) (simp_all add: create_begin_probing(18) nth_append)
next
  case (create_end p w res u n)
  then show ?thesis using ctx_done_le [OF cancel_ctx_le assms(2,3)] assms(2,3) by (cases res) simp_all
next
  case (delete fs pf sid)
  then show ?thesis using ctx_done_le [OF deleteWithReason_ctxs_le assms(2,3)] by (simp add: Delete_def)
next
  case (after d fs pf)
  then obtain k lg where k: "after_func (ctxs s ! d) = Some (k, lg)" by auto
  show ?thesis
    using ctx_done_le [OF deleteWithReason_ctxs_le assms(2,3), of fs pf k TerminationReasonTimeout]
    unfolding after(2) after_done_eq(3) [OF after(5) k refl] ran_def
    by (cases "c = d") simp_all
next
  case (compute_end d w res u n)
  then show ?thesis using ctx_done_le [OF cancel_ctx_le assms(2,3)] by simp
qed (use assms(2,3) in \<open>simp_all add: Drain_def compute_begin_def Let_def nth_append\<close>)

lemma run_stays_done:
  "run step s ls t \<Longrightarrow> c < length (ctxs s) \<Longrightarrow> ctx_err (ctxs s ! c) \<noteq> None \<Longrightarrow>
     c < length (ctxs t) \<and> ctx_err (ctxs t ! c) \<noteq> None"
  by (induction rule: run.induct) (auto dest: step_stays_done)

lemma sample_port: "''--remote-debugging-port=5222'' \<in> set (cmd_args (launch_cmd (opts sample_start) ua dir))"
  using launch_cmd_port [of "opts sample_start" ua dir]
  by (simp add: sample_start_def New_def withDefaults_eq Let_def sample_options_def defaultChromiumPort_def)

lemma startup_browser:
  "\<exists>s c1 d1 t1 c2 d2 t2. reach starts step s \<and> length (Sessions s) = 1 \<and>
     map l_phase (launches s) = [Running c1 d1 t1, Running c2 d2 t2] \<and>
     ''--remote-debugging-port=5222'' \<in> set (cmd_args c1) \<and> ''--remote-debugging-port=5222'' \<in> set (cmd_args c2) \<and>
     \<not> l_tracked (launches s ! 0) \<and> ctx_err (ctxs s ! l_ctx (launches s ! 0)) \<noteq> None"
proof -
  define s1 where "s1 = snd (compute_begin None sample_start)"
  define s2 where "s2 = launch_begin sample_mkdir 0 s1"
  define s3 where "s3 = happen (Tick 1000000) s2"
  define t1 where "t1 = snd (compute_end 0 (Inr sample_version) s3)"
  have s1: "\<not> crashed s1" "mtx s1 = None" "\<not> draining s1" "opts s1 = opts sample_start" "now s1 = 0"
    "ctxs s1 = [\<lparr>ctx_start = 0, deadline = None, ctx_err = None, after_func = None, after_ran = False\<rparr>]"
    by (simp_all add: s1_def compute_begin_def Let_def)
  obtain l1 where l1: "launches s1 = [l1]" "l_phase l1 = Spawned" "\<not> l_tracked l1" "l_ctx l1 = 0"
    by (simp add: s1_def compute_begin_def Let_def)
  have s2: "step s1 (Act (GoLaunch sample_mkdir 0)) s2"
    "launches s2 = [l1\<lparr>l_phase := Running (launch_cmd (opts s1) (userAgent s1) ''/chromium-tmp/1'') ''/chromium-tmp/1'' (now s1)\<rparr>]"
    using sample_go [OF s1(1), of 0] l1(1,2) by (simp_all add: s2_def)
  have s3: "\<not> crashed s3" "mtx s3 = None" "\<not> draining s3" "opts s3 = opts sample_start" "now s3 = 1000000" "ctxs s3 = ctxs s1"
    "launches s3 = launches s2" using s1(1-5) by (simp_all add: s3_def s2_def)
  have "Version answering (probe_deadline (deadline (ctxs s3 ! 0)) (ctx_start (ctxs s3 ! 0))) (ctx_start (ctxs s3 ! 0)) =
      (Inr sample_version, 1000000, 1)"
    using sample_probe [of 0] by (simp add: s3(6) s1(6) probe_deadline_def)
  then have "step s3 (ComputeEnd 0 answering) t1"
    unfolding t1_def by (rule step.compute_end [rotated 4]) (simp_all add: s3 s1(6))
  moreover have "step sample_start (ComputeBegin None) s1" unfolding s1_def by (rule step.compute_begin) simp
  moreover have "step s2 (Act (Tick 1000000)) s3" unfolding s3_def by (rule step.act) (simp add: s2_def s1(1))
  ultimately have r1: "run step sample_start [ComputeBegin None, Act (GoLaunch sample_mkdir 0), Act (Tick 1000000), ComputeEnd 0 answering] t1"
    using s2(1) by (auto simp: run_Cons_iff)
  have t1: "\<not> crashed t1" "mtx t1 = None" "\<not> draining t1" "opts t1 = opts sample_start" "launches t1 = launches s2"
    "ctx_err (ctxs t1 ! 0) \<noteq> None"
    using s3 by (simp_all add: t1_def cancel_ctx_ctxs s1(6) cancelled_def)
  have "2 * second \<le> SessionTimeout t1"
    using sample_start_simps(7) by (simp add: SessionTimeout_def t1(4))
  then obtain t3 k l3 where t3: "run step t1 creation t3" "\<not> crashed t3" "opts t3 = opts t1" "Sessions t3 = [k]"
    "launches t3 = launches t1 @ [l3]" "l_phase l3 = Spawned"
    using creation_run [OF t1(1-3)] by blast
  define t4 where "t4 = launch_begin sample_mkdir 1 t3"
  have t4: "step t3 (Act (GoLaunch sample_mkdir 1)) t4"
    "launches t4 = [l1\<lparr>l_phase := Running (launch_cmd (opts s1) (userAgent s1) ''/chromium-tmp/1'') ''/chromium-tmp/1'' (now s1)\<rparr>,
      l3\<lparr>l_phase := Running (launch_cmd (opts t3) (userAgent t3) ''/chromium-tmp/1'') ''/chromium-tmp/1'' (now t3)\<rparr>]"
    using sample_go [OF t3(2), of 1] t3(5,6) t1(5) s2(2) by (simp_all add: t4_def)
  have "run step t3 [Act (GoLaunch sample_mkdir 1)] t4" using t4(1) by (auto simp: run_Cons_iff)
  from run_append [OF t3(1) this] have r3: "run step t1 (creation @ [Act (GoLaunch sample_mkdir 1)]) t4" .
  have r: "reach starts step t4"
    by (rule reach_run [OF reach.reach_init [where init = starts and step = step, OF sample_starts] run_append [OF r1 r3]])
  have "0 < length (ctxs t1)" by (simp add: t1_def cancel_ctx_ctxs s3(6) s1(6))
  then have "ctx_err (ctxs t4 ! 0) \<noteq> None" using run_stays_done [OF r3 _ t1(6)] by blast
  then show ?thesis using r t3(4) t4(2) l1(3,4) t1(4) t3(3) s1(4) sample_port
    by (intro exI [of _ t4]) (simp add: t4_def Sessions_def)
qed
lemma replaced_browser:
  "\<exists>s c1 d1 t1 c2 d2 t2. reach starts step s \<and> length (Sessions s) = 1 \<and>
     map l_phase (launches s) = [Running c1 d1 t1, Running c2 d2 t2] \<and>
     ''--remote-debugging-port=5222'' \<in> set (cmd_args c1) \<and> ''--remote-debugging-port=5222'' \<in> set (cmd_args c2) \<and>
     l_tracked (launches s ! 0) \<and> ctx_err (ctxs s ! l_ctx (launches s ! 0)) \<noteq> None"
proof -
  obtain t1 l1 where t1: "run step sample_start creation t1" "\<not> crashed t1" "mtx t1 = None" "\<not> draining t1"
    "opts t1 = opts sample_start" "launches t1 = [l1]" "l_phase l1 = Spawned" "l_ctx l1 = 0" "l_tracked l1"
    using creation_run [of sample_start] by (auto simp del: sample_start_simps(8))
  define t2 where "t2 = launch_begin sample_mkdir 0 t1"
  have g1: "step t1 (Act (GoLaunch sample_mkdir 0)) t2"
    "launches t2 = [l1\<lparr>l_phase :=
       Running (launch_cmd (opts t1) (userAgent t1) ''/chromium-tmp/1'') ''/chromium-tmp/1'' (now t1)\<rparr>]"
    using sample_go [OF t1(2), of 0] t1(6,7) by (simp_all add: t2_def)
  have "2 * second \<le> SessionTimeout t2"
    using sample_start_simps(7) by (simp add: t2_def SessionTimeout_def t1(5))
  then obtain t3 k l3 where t3: "run step t2 creation t3" "\<not> crashed t3" "opts t3 = opts t2" "Sessions t3 = [k]"
    "length (ctxs t3) = Suc (length (ctxs t2))" "ctx_err (ctxs t3 ! length (ctxs t2)) = None"
    "launches t3 = launches t2 @ [l3]" "l_phase l3 = Spawned" "l_ctx l3 = length (ctxs t2)" "l_tracked l3"
    using creation_run [of t2] t1(2-4) by (auto simp: t2_def)
  define t4 where "t4 = launch_begin sample_mkdir 1 t3"
  have g3: "step t3 (Act (GoLaunch sample_mkdir 1)) t4"
    "launches t4 = [l1\<lparr>l_phase :=
       Running (launch_cmd (opts t1) (userAgent t1) ''/chromium-tmp/1'') ''/chromium-tmp/1'' (now t1)\<rparr>,
     l3\<lparr>l_phase :=
       Running (launch_cmd (opts t3) (userAgent t3) ''/chromium-tmp/1'') ''/chromium-tmp/1'' (now t3)\<rparr>]"
    using sample_go [OF t3(2), of 1] t3(7,8) g1(2) by (simp_all add: t4_def)
  have "run step t3 [Act (GoLaunch sample_mkdir 1)] t4" using g3(1) by (auto simp: run_Cons_iff)
  from run_append [OF t3(1) this]
  have "run step t1 (Act (GoLaunch sample_mkdir 0) # creation @ [Act (GoLaunch sample_mkdir 1)]) t4"
    using g1(1) by (auto simp: run_Cons_iff)
  from run_append [OF t1(1) this]
  have r: "reach starts step t4"
    by (rule reach_run [OF reach.reach_init [where init = starts and step = step, OF sample_starts]])
  have "ctx_err (ctxs t4 ! 0) \<noteq> None"
  proof
    assume n: "ctx_err (ctxs t4 ! 0) = None"
    have c: "ctxs t4 = ctxs t3" by (simp add: t4_def)
    have "0 = (1 :: nat)"
      using one_live_browser_lemma [OF r, of 0 1] n t3(6,9,10) t1(8,9) by (simp add: g3(2) c)
    then show False by simp
  qed
  moreover have o: "opts t3 = opts sample_start" using t3(3) t1(5) by (simp add: t2_def)
  ultimately show ?thesis
    using r t3(4) g3(2) t1(5,8,9) sample_port
    by (intro exI [of _ t4]) (simp add: o t4_def Sessions_def)
qed

text \<open>
  C26.  Two browsers on one port.  A state is reachable in which two chromium processes run with the
  same debugging port: the session of the first was replaced, its context is done, and the
  second was started without waiting for the first to end.  Replacing a session, like deleting
  it, orders its browser to be killed; only \<open>Wait\<close> waits for the end.  The same holds for the browser that
  \<open>ComputeUserAgent\<close> started, which \<open>Wait\<close> does not wait for either: it can still run beside the browser
  of the first session.
\<close>

theorem replaced_browser_may_still_run:
  "(\<exists>s c1 d1 t1 c2 d2 t2. reach starts step s \<and> length (Sessions s) = 1 \<and>
     map l_phase (launches s) = [Running c1 d1 t1, Running c2 d2 t2] \<and>
     ''--remote-debugging-port=5222'' \<in> set (cmd_args c1) \<and> ''--remote-debugging-port=5222'' \<in> set (cmd_args c2) \<and>
     l_tracked (launches s ! 0) \<and> ctx_err (ctxs s ! l_ctx (launches s ! 0)) \<noteq> None) \<and>
   (\<exists>s c1 d1 t1 c2 d2 t2. reach starts step s \<and> length (Sessions s) = 1 \<and>
     map l_phase (launches s) = [Running c1 d1 t1, Running c2 d2 t2] \<and>
     ''--remote-debugging-port=5222'' \<in> set (cmd_args c1) \<and> ''--remote-debugging-port=5222'' \<in> set (cmd_args c2) \<and>
     \<not> l_tracked (launches s ! 0) \<and> ctx_err (ctxs s ! l_ctx (launches s ! 0)) \<noteq> None)"
  using replaced_browser startup_browser by blast

section \<open>Calls are runs\<close>

lemma happen_crashed: "crashed s \<Longrightarrow> crashed (happen ev s)"
  by (cases ev) simp_all

lemma meanwhile_crashed: "crashed s \<Longrightarrow> crashed (meanwhile evs s)"
  by (induction evs arbitrary: s) (simp_all add: happen_crashed)

lemma meanwhile_run: "\<not> crashed (meanwhile evs s) \<Longrightarrow> run step s (map Act evs) (meanwhile evs s)"
proof (induction evs arbitrary: s)
  case (Cons ev evs)
  then have "\<not> crashed s" using meanwhile_crashed [of s "ev # evs"] by blast
  then have "step s (Act ev) (happen ev s)" by (rule step.act)
  moreover have "run step (happen ev s) (map Act evs) (meanwhile evs (happen ev s))" using Cons by simp
  ultimately show ?case by (auto simp: run_Cons_iff)
qed simp

lemma create_run_of:
  assumes "\<not> crashed s" and "mtx s = None" and "create env ci ifFree s = (r, s')" and "\<not> crashed s'"
  shows "\<exists>ls. run step s ls s'"
proof -
  have b: "step s (CreateBegin env ci ifFree) (snd (create_begin env ci ifFree s))"
    by (rule step.create_begin [OF assms(1,2)])
  show ?thesis
  proof (cases rule: create_begin_cases [of s env ci ifFree])
    case (probing p s1)
    obtain res t n where v: "Version (env_world env) (pending_deadline p s1) (p_start p) = (res, t, n)"
      by (cases "Version (env_world env) (pending_deadline p s1) (p_start p)")
    define m where "m = meanwhile (env_events env) s1"
    define u where "u = m\<lparr>now := max t (now m)\<rparr>"
    have s': "s' = snd (create_end p res u)"
      using create_probing [OF probing(4) v u_def [unfolded m_def]] assms(3) by simp
    have ok: "\<not> crashed m" using assms(4) by (simp add: s' u_def)
    have "run step s1 (map Act (env_events env)) m" unfolding m_def by (rule meanwhile_run) (use ok in \<open>simp add: m_def\<close>)
    moreover have "step m (Act (Tick (nat (max t (now m) - now m)))) u"
      using step.act [OF ok, of "Tick (nat (max t (now m) - now m))"] by (simp add: u_def)
    moreover have "step u (CreateEnd (env_world env)) s'"
      unfolding s'
    proof (rule step.create_end)
      show "Version (env_world env) (pending_deadline p u) (p_start p) = (res, t, n)"
        using v by (simp add: pending_deadline_def u_def m_def bg.acts_frame)
      show "mtx u = Some p" using create_begin_probing(14) [OF probing(4)] by (simp add: u_def m_def bg.acts_frame)
    qed (simp_all add: u_def ok)
    ultimately have "run step s1 (map Act (env_events env) @ [Act (Tick (nat (max t (now m) - now m))), CreateEnd (env_world env)]) s'"
      by (intro run_append) (auto simp: run_Cons_iff)
    then show ?thesis using b probing(4) by (auto intro: run.run_Cons)
  qed (use b assms(3) in \<open>auto simp: create_def intro: run.run_Cons run.run_Nil\<close>)
qed

text \<open>
  Calls are runs.  What a call of \<open>Create\<close>, \<open>CreateIfFree\<close> or \<open>Delete\<close> does to the state, with all
  that goes on while it probes, is a run of the step relation; so after any of them from a
  reachable state the state is reachable, and what holds for every reachable state holds then.
\<close>

theorem calls_are_runs:
  assumes "reach starts step s" and "\<not> crashed s" and "mtx s = None"
    and "r \<in> {snd (Create env ci s), snd (CreateIfFree env ci s), snd (Delete fs pf sid s), Drain s}"
    and "\<not> crashed r"
  shows "reach starts step r \<and> (\<exists>ls. run step s ls r) \<and> length (Sessions r) \<le> 1"
proof -
  have "\<exists>ls. run step s ls (snd (create env ci f s))" if "\<not> crashed (snd (create env ci f s))" for f
    using create_run_of [OF assms(2,3), of env ci f] that by (metis prod.collapse)
  moreover have "run step s [DeleteCall fs pf sid] (snd (Delete fs pf sid s))" "run step s [DrainCall] (Drain s)"
    using step.delete [OF assms(2,3)] step.drain [OF assms(2,3)] by (simp_all add: run_Cons_iff)
  ultimately obtain ls where ls: "run step s ls r"
    using assms(4,5) unfolding Create_def CreateIfFree_def by auto
  then have r: "reach starts step r" by (rule reach_run [OF assms(1)])
  then have "table_inv r" using sup.inv_reach by (simp add: sup_inv_def)
  then show ?thesis using r ls by (auto simp: table_inv_def Sessions_def map_keys_def)
qed

theorem calls_are_runs_witness:
  "\<exists>s k. reach starts step s \<and> Sessions s = [k] \<and>
     reach starts step (snd (Delete (sample_fs ''/f'' []) sample_procfs k s)) \<and>
     reach starts step (snd (CreateIfFree (sample_env answering) sample_check s))"
proof -
  obtain s k where s: "reach starts step s" "\<not> crashed s" "mtx s = None" "\<not> draining s" "Sessions s = [k]"
    using sample_created by blast
  have "\<not> crashed (snd (Delete (sample_fs ''/f'' []) sample_procfs k s))" using s(2) by (simp add: Delete_def)
  from calls_are_runs [OF s(1-3) _ this, where fs = "sample_fs ''/f'' []" and pf = sample_procfs and sid = k
      and env = "sample_env answering" and ci = sample_check]
  have "reach starts step (snd (Delete (sample_fs ''/f'' []) sample_procfs k s))" by simp
  moreover have "CreateIfFree (sample_env answering) sample_check s = (Return (Inl ErrSessionExists), s)"
    using s(4,5) by (cases "sessions s") (simp_all add: CreateIfFree_def create_def create_begin_def Sessions_def)
  ultimately show ?thesis using s(1,5) by auto
qed

end
