(* ===== verification/Go_Mux.thy ===== *)
theory Go_Mux
  imports Go_Json Go_Path
begin

text \<open>
  The router of Go's \<open>net/http\<close>: patterns and their registration, and how a request finds its
  handler.  Patterns are data; of their forms the program uses an optional method, literal
  segments, wildcards for one segment, and a final slash.  A final slash with a method, a
  wildcard for the rest of a path, \<open>{$}\<close> and hosts are left out: the program registers none.
\<close>

section \<open>Paths of requests\<close>

text \<open>
  Percent-decoding.  The URL parser has refused paths in which a percent sign is not followed by
  two hexadecimal digits; here such a sign stands for itself.
\<close>

fun unescape :: "string \<Rightarrow> string" where
  "unescape (p # a # b # s) =
     (if p = CHR ''%'' \<and> is_hexit a \<and> is_hexit b then char_of (hexit_val a * 16 + hexit_val b) # unescape s
      else p # unescape (a # b # s))"
| "unescape s = s"

text \<open>The path the router cleans a request's path to; it keeps a final slash.\<close>

definition cleanPath :: "string \<Rightarrow> string" where
  "cleanPath p =
     (if p = [] then ''/''
      else let q = (if hd p = slash then p else slash # p); np = Clean q
           in if last q = slash \<and> np \<noteq> ''/'' then np @ [slash] else np)"

text \<open>
  The segments of an escaped path, each decoded by itself.  What follows a final slash is the segment
  \<open>/\<close>, which a decoded segment may be as well.  The path of a request is empty, \<open>*\<close>, or starts with a
  slash.
\<close>

definition segments :: "string \<Rightarrow> string list" where
  "segments p =
     (if p = [] \<or> hd p \<noteq> slash then []
      else let xs = Split (tl p) slash
           in map unescape (butlast xs) @ [if last xs = [] then [slash] else unescape (last xs)])"

section \<open>Patterns\<close>

datatype segment = Lit string | Wild string | Rest

record pattern =
  pat_method :: string
  pat_segs :: "segment list"

text \<open>The segments of a pattern's path, after its first slash.\<close>

definition parse_segment :: "string \<Rightarrow> segment option" where
  "parse_segment s =
     (case Index s ''{'' of
        None \<Rightarrow> Some (Lit (unescape s))
      | Some i \<Rightarrow>
          if i = 0 \<and> last s = CHR ''}'' \<and> s \<noteq> ''{}'' \<and> s \<noteq> ''{$}'' \<and> CHR ''.'' \<notin> set s
          then Some (Wild (butlast (tl s))) else None)"

fun parse_segments :: "string list \<Rightarrow> segment list option" where
  "parse_segments [] = Some []"
| "parse_segments [s] = (if s = [] then Some [Rest] else map_option (\<lambda>x. [x]) (parse_segment s))"
| "parse_segments (s # ss) =
     (case (parse_segment s, parse_segments ss) of (Some x, Some xs) \<Rightarrow> Some (x # xs) | _ \<Rightarrow> None)"

definition parse_path :: "string \<Rightarrow> string \<Rightarrow> pattern option" where
  "parse_path m p =
     (if p = [] \<or> hd p \<noteq> slash then None
      else map_option (\<lambda>ss. \<lparr>pat_method = m, pat_segs = ss\<rparr>) (parse_segments (Split (tl p) slash)))"

definition parse_pattern :: "string \<Rightarrow> pattern option" where
  "parse_pattern s =
     (case IndexAny s [space] of
        None \<Rightarrow> parse_path [] s
      | Some i \<Rightarrow> parse_path (take i s) (dropWhile (\<lambda>c. c = space) (drop (Suc i) s)))"

section \<open>Registration\<close>

text \<open>How the requests two patterns match are related.\<close>

datatype relationship = Equivalent | MoreGeneral | MoreSpecific | Overlaps | Disjoint

fun inverse :: "relationship \<Rightarrow> relationship" where
  "inverse MoreGeneral = MoreSpecific"
| "inverse MoreSpecific = MoreGeneral"
| "inverse r = r"

definition combine :: "relationship \<Rightarrow> relationship \<Rightarrow> relationship" where
  "combine r1 r2 =
     (if r1 = Equivalent then r2
      else if r1 = Disjoint then Disjoint
      else if r1 = Overlaps then (if r2 = Disjoint then Disjoint else Overlaps)
      else if r2 = Equivalent then r1
      else if r2 = inverse r1 then Overlaps
      else r2)"

fun compare_segment :: "segment \<Rightarrow> segment \<Rightarrow> relationship" where
  "compare_segment Rest Rest = Equivalent"
| "compare_segment Rest _ = MoreGeneral"
| "compare_segment _ Rest = MoreSpecific"
| "compare_segment (Wild _) (Wild _) = Equivalent"
| "compare_segment (Wild _) (Lit l) = (if l = [slash] then Disjoint else MoreGeneral)"
| "compare_segment (Lit l) (Wild _) = (if l = [slash] then Disjoint else MoreSpecific)"
| "compare_segment (Lit l) (Lit k) = (if l = k then Equivalent else Disjoint)"

text \<open>Segment by segment; the longer of two paths can only be matched by a shorter one that ends with a slash.\<close>

fun compare_from :: "relationship \<Rightarrow> bool \<Rightarrow> bool \<Rightarrow> segment list \<Rightarrow> segment list \<Rightarrow> relationship" where
  "compare_from rel rest1 rest2 (x # xs) (y # ys) =
     (let rel2 = combine rel (compare_segment x y)
      in if rel2 = Disjoint then Disjoint else compare_from rel2 rest1 rest2 xs ys)"
| "compare_from rel rest1 rest2 [] [] = rel"
| "compare_from rel rest1 rest2 [] (y # ys) = (if rest1 then combine rel MoreGeneral else Disjoint)"
| "compare_from rel rest1 rest2 (x # xs) [] = (if rest2 then combine rel MoreSpecific else Disjoint)"

definition compare_paths :: "segment list \<Rightarrow> segment list \<Rightarrow> relationship" where
  "compare_paths xs ys = compare_from Equivalent (last xs = Rest) (last ys = Rest) xs ys"

definition compare_methods :: "string \<Rightarrow> string \<Rightarrow> relationship" where
  "compare_methods m n =
     (if m = n then Equivalent
      else if m = [] then MoreGeneral
      else if n = [] then MoreSpecific
      else if m = ''GET'' \<and> n = ''HEAD'' then MoreGeneral
      else if n = ''GET'' \<and> m = ''HEAD'' then MoreSpecific
      else Disjoint)"

definition conflicts :: "pattern \<Rightarrow> pattern \<Rightarrow> bool" where
  "conflicts p q \<longleftrightarrow>
     (let mrel = compare_methods (pat_method p) (pat_method q)
      in mrel \<noteq> Disjoint \<and> combine mrel (compare_paths (pat_segs p) (pat_segs q)) \<in> {Equivalent, Overlaps})"

text \<open>A router: what is registered, in order.  Registering panics on a conflict.\<close>

type_synonym 'h router = "(pattern \<times> 'h) list"

definition Handle :: "string \<Rightarrow> 'h \<Rightarrow> 'h router \<Rightarrow> 'h router outcome" where
  "Handle pat h rt =
     (case parse_pattern pat of
        None \<Rightarrow> Panic ''http: invalid pattern''
      | Some p \<Rightarrow> if list_ex (\<lambda>(q, _). conflicts p q) rt then Panic ''http: conflicting pattern''
                  else Return (rt @ [(p, h)]))"

fun register_all :: "(string \<times> 'h) list \<Rightarrow> 'h router \<Rightarrow> 'h router outcome" where
  "register_all [] rt = Return rt"
| "register_all ((pat, h) # ps) rt =
     (case Handle pat h rt of Return rt1 \<Rightarrow> register_all ps rt1 | Panic m \<Rightarrow> Panic m)"

section \<open>Finding the handler\<close>

text \<open>
  The search is that of the library's tree of segments: a node is the list of what remains of the patterns
  that lead to it, and a literal child is tried before the wildcard, which does not match a final
  slash, and that before the rest of the path.  A segment that is empty leads to the wildcard
  without being recorded.
\<close>

type_synonym 'n node = "(segment list \<times> 'n) list"

definition literal_child :: "string \<Rightarrow> 'n node \<Rightarrow> 'n node" where
  "literal_child s nd = concat (map (\<lambda>(ss, n). case ss of Lit l # ts \<Rightarrow> if l = s then [(ts, n)] else [] | _ \<Rightarrow> []) nd)"

definition wild_child :: "'n node \<Rightarrow> 'n node" where
  "wild_child nd = concat (map (\<lambda>(ss, n). case ss of Wild _ # ts \<Rightarrow> [(ts, n)] | _ \<Rightarrow> []) nd)"

definition find_child :: "string \<Rightarrow> 'n node \<Rightarrow> 'n node" where
  "find_child s nd = (if s = [] then wild_child nd else literal_child s nd)"

definition rest_child :: "'n node \<Rightarrow> 'n option" where
  "rest_child nd = map_option snd (List.find (\<lambda>(ss, n). ss = [Rest]) nd)"

definition leaf :: "'n node \<Rightarrow> 'n option" where
  "leaf nd = map_option snd (List.find (\<lambda>(ss, n). ss = []) nd)"

fun match_path :: "'n node \<Rightarrow> string list \<Rightarrow> string list \<Rightarrow> ('n \<times> string list) option" where
  "match_path nd [] ms = map_option (\<lambda>n. (n, ms)) (leaf nd)"
| "match_path nd (s # ss) ms =
     (case match_path (find_child s nd) ss ms of
        Some r \<Rightarrow> Some r
      | None \<Rightarrow>
          (case (if s = [slash] then None else match_path (wild_child nd) ss (ms @ [s])) of
             Some r \<Rightarrow> Some r
           | None \<Rightarrow> map_option (\<lambda>n. (n, ms)) (rest_child nd)))"

definition method_child :: "string \<Rightarrow> 'h router \<Rightarrow> (pattern \<times> 'h) node" where
  "method_child m rt = map (\<lambda>(p, h). (pat_segs p, (p, h))) (filter (\<lambda>(p, h). pat_method p = m) rt)"

definition match_method :: "'h router \<Rightarrow> string \<Rightarrow> string list \<Rightarrow> ((pattern \<times> 'h) \<times> string list) option" where
  "match_method rt m ss =
     (case match_path (method_child m rt) ss [] of
        Some r \<Rightarrow> Some r
      | None \<Rightarrow>
          (case (if m = ''HEAD'' then match_path (method_child ''GET'' rt) ss [] else None) of
             Some r \<Rightarrow> Some r
           | None \<Rightarrow> match_path (method_child [] rt) ss []))"

text \<open>The methods with which the path would be matched.\<close>

definition allowed_methods :: "'h router \<Rightarrow> string list \<Rightarrow> string list" where
  "allowed_methods rt ss =
     filter (\<lambda>m. m \<noteq> [] \<and> match_path (method_child m rt) ss [] \<noteq> None) (map (\<lambda>(p, h). pat_method p) rt)"

text \<open>
  What becomes of a request: a handler and the values of its wildcards, or one of the router's
  own answers: a method that is not allowed (405), a path that is not found (404), a redirect to the
  cleaned path, or a bad request for the target \<open>*\<close>.
\<close>

datatype 'h route = Handler 'h "(string \<times> string) list" | NotAllowed | NotFound | RedirectTo string | BadTarget

definition wild_names :: "pattern \<Rightarrow> string list" where
  "wild_names p = concat (map (\<lambda>x. case x of Wild n \<Rightarrow> [n] | _ \<Rightarrow> []) (pat_segs p))"

definition find_handler :: "'h router \<Rightarrow> string \<Rightarrow> string \<Rightarrow> 'h route" where
  "find_handler rt m p =
     (if p = ''*'' then BadTarget
      else if m \<noteq> ''CONNECT'' \<and> cleanPath p \<noteq> p then RedirectTo (cleanPath p)
      else (case match_method rt m (segments p) of
              Some ((pat, h), ms) \<Rightarrow> Handler h (zip (wild_names pat) ms)
            | None \<Rightarrow> if allowed_methods rt (segments p) \<noteq> [] then NotAllowed else NotFound))"

definition PathValue :: "string \<Rightarrow> (string \<times> string) list \<Rightarrow> string" where
  "PathValue name vs = (case map_of vs name of Some v \<Rightarrow> v | None \<Rightarrow> [])"

section \<open>Lemmas\<close>

lemma node_simps [simp]:
  "literal_child s [] = []" "wild_child [] = []" "find_child s [] = []" "rest_child [] = None" "leaf [] = None"
  "method_child m [] = []"
  by (simp_all add: literal_child_def wild_child_def find_child_def rest_child_def leaf_def method_child_def)

lemma child_Cons [simp]:
  "literal_child s ((ss, n) # nd) = (case ss of Lit l # ts \<Rightarrow> if l = s then [(ts, n)] else [] | _ \<Rightarrow> []) @ literal_child s nd"
  "wild_child ((ss, n) # nd) = (case ss of Wild _ # ts \<Rightarrow> [(ts, n)] | _ \<Rightarrow> []) @ wild_child nd"
  "rest_child ((ss, n) # nd) = (if ss = [Rest] then Some n else rest_child nd)"
  "leaf ((ss, n) # nd) = (if ss = [] then Some n else leaf nd)"
  "method_child m ((p, h) # rt) = (if pat_method p = m then [(pat_segs p, (p, h))] else []) @ method_child m rt"
  by (simp_all add: literal_child_def wild_child_def rest_child_def leaf_def method_child_def)

lemma match_path_Nil [simp]: "match_path [] ss ms = None"
  by (induction ss arbitrary: ms) simp_all

text \<open>Decoding one segment after the other is decoding the whole path.\<close>

lemma slash_not_hexit [simp]: "\<not> is_hexit slash"
  by (simp add: is_hexit_def between_def)

lemma unescape_keep: "c \<noteq> CHR ''%'' \<Longrightarrow> unescape (c # s) = c # unescape s"
  by (cases s rule: unescape.cases) simp_all

lemma unescape_slash: "unescape (u @ slash # v) = unescape u @ slash # unescape v"
proof (induction u rule: unescape.induct [case_names triple empty one two])
  case (one x)
  then show ?case by (cases v) (simp_all add: unescape_keep)
next
  case (two x)
  then show ?case by (cases v) (simp_all add: unescape_keep)
qed (simp_all add: unescape_keep)

lemma unescape_plain: "CHR ''%'' \<notin> set s \<Longrightarrow> unescape s = s"
  by (induction s rule: unescape.induct) auto

lemma unescape_Join: "unescape (Join ss [slash]) = Join (map unescape ss) [slash]"
proof (induction ss rule: induct_list012)
  case (3 s t ss)
  then show ?case by (simp add: unescape_slash)
qed simp_all

lemma segments_rooted:
  assumes "last (Split q slash) \<noteq> []"
  shows "segments (slash # q) = map unescape (Split q slash)"
proof -
  have "map unescape (butlast xs) @ [unescape (last xs)] = map unescape xs" if "xs \<noteq> []" for xs
    using that append_butlast_last_id [of xs] by (metis list.simps(8,9) map_append)
  then show ?thesis using assms by (simp add: segments_def Let_def)
qed

lemma segments_path:
  assumes "segments p = ss" "ss \<noteq> []" "last ss \<noteq> [slash]"
  shows "unescape p = abs_path ss"
proof -
  obtain q where p: "p = slash # q" using assms(1,2) by (cases p) (auto simp: segments_def split: if_splits)
  have "last (Split q slash) \<noteq> []" using assms by (auto simp: p segments_def Let_def)
  then have "unescape q = Join ss [slash]"
    using assms(1) unescape_Join [of "Split q slash"] by (simp add: p segments_rooted Join_Split)
  then show ?thesis by (simp add: p unescape_keep abs_path_def)
qed

lemma segments_abs_path:
  assumes "es \<noteq> []" "list_all plain_elem es" "list_all (\<lambda>e. CHR ''%'' \<notin> set e) es"
  shows "segments (abs_path es) = es"
proof -
  have s: "Split (Join es [slash]) slash = es" by (rule Split_Join_plain [OF assms(1,2)])
  have "last es \<noteq> []" using assms(1,2) by (simp add: list_all_iff plain_elem_def)
  moreover have "map unescape es = es" using assms(3) by (intro map_idI) (simp add: list_all_iff unescape_plain)
  ultimately show ?thesis unfolding abs_path_def using segments_rooted [of "Join es [slash]"] s by simp
qed

lemma cleanPath_plain: "es \<noteq> [] \<Longrightarrow> list_all plain_elem es \<Longrightarrow> cleanPath (abs_path es) = abs_path es"
proof -
  assume es: "es \<noteq> []" "list_all plain_elem es"
  then have l: "plain_elem (last es)" by (simp add: list_all_iff)
  have "last (abs_path es) \<noteq> slash"
  proof -
    have "es = butlast es @ [last es]" using es(1) by simp
    then have "abs_path es = slash # (if butlast es = [] then last es else Join (butlast es) [slash] @ slash # last es)"
      using Join_snoc [of "butlast es" "last es"] by (simp add: abs_path_def)
    then have "last (abs_path es) = last (last es)" using l by (simp add: plain_elem_def)
    moreover have "last (last es) \<in> set (last es)" using l by (simp add: plain_elem_def)
    ultimately show ?thesis using plain_elemD(2) [OF l] by metis
  qed
  then show ?thesis
    using Clean_abs_path [OF es(2)] by (simp add: cleanPath_def abs_path_def Let_def)
qed

end
