(* ===== verification/Http_Api.thy ===== *)
theory Http_Api
  imports Supervisor_Timeout Go_Mux
begin

text \<open>
  Model of \<open>internal/http/http.go\<close>: the routes, the handlers and the label of a request.  A
  handler takes the request and the supervisor's state and gives what is answered, what is
  logged, and the new state.  Bodies are bytes, read and written as JSON where the code does so.  The
  router is that of \<open>Go_Mux\<close> with the patterns the code registers; \<open>url.Parse\<close> is a parameter, and so is the proxy: the answer
  of \<open>Proxy\<close> says where it connects and with which headers.
\<close>

section \<open>Requests and answers\<close>

text \<open>
  \<open>EscPath\<close> is the path as \<open>r.URL.EscapedPath()\<close> gives it.  \<open>Body\<close> is what can be read of the request's
  body, \<open>BodyEnded\<close> the error reading it stops with, if any.
\<close>

record request =
  Method :: string
  EscPath :: string
  ReqHost :: string
  ContentType :: string
  Body :: string
  BodyEnded :: "go_error option"

text \<open>\<open>r.URL.Path\<close>.\<close>

definition UrlPath :: "request \<Rightarrow> string" where
  "UrlPath r = unescape (EscPath r)"

text \<open>The body of an answer: empty, a text, the text of an error, or JSON.\<close>

datatype body = NoBody | Text string | ErrText go_error | Json string

type_synonym headers = "(string \<times> string) list"

text \<open>
  \<open>Answer\<close> has the status, the content type that is set, and the body.  \<open>Redirected\<close>: the router
  redirects the client to the cleaned path; with which status differs between releases of Go.
  \<open>Aborted\<close>: the handler panicked and the server closed the connection.  \<open>Proxied\<close>: the request was
  handed to the web socket proxy with this backend and what is done to the outgoing headers.
\<close>

datatype answer =
    Answer nat "string option" body
  | Proxied string "headers \<Rightarrow> headers"
  | Redirected string
  | Aborted

record api_env =
  api_create :: create_env
  api_files :: filesystem
  api_procfs :: procfs
  api_parse :: "string \<Rightarrow> go_error + string"

type_synonym result = "answer \<times> log_entry list \<times> supervisor"

abbreviation entry :: "attrs \<Rightarrow> log_level \<Rightarrow> string \<Rightarrow> attrs \<Rightarrow> log_entry" where
  "entry lg lvl msg as \<equiv> \<lparr>le_level = lvl, le_msg = msg, le_attrs = lg @ as\<rparr>"

text \<open>
  \<open>err.Error()\<close> for the errors a creation returns; \<open>None\<close> where the text is not modelled.
\<close>

fun error_text :: "go_error \<Rightarrow> string option" where
  "error_text ErrSessionExists = Some ''a session already exists''"
| "error_text ErrDraining = Some ''shutting down, not accepting new sessions''"
| "error_text Canceled = Some ''context canceled''"
| "error_text DeadlineExceeded = Some ''context deadline exceeded''"
| "error_text (Errorf f [] (Some e)) = map_option (ReplaceAll f ''%w'') (error_text e)"
| "error_text e = None"

section \<open>Routes\<close>

definition Route :: "string \<Rightarrow> string" where
  "Route path =
     (if path = ''/sessions'' then ''/sessions''
      else if path = ''/sessions/acquire'' then ''/sessions/acquire''
      else if HasPrefix path ''/sessions/'' then ''/sessions/{id}''
      else if HasPrefix path ''/proxy/'' then ''/proxy/{id}''
      else ''unknown'')"

text \<open>What \<open>New\<close> of the package registers.\<close>

datatype endpoint = ListH | CreateH | AcquireH | DeleteH | ProxyH

definition routes :: "(string \<times> endpoint) list" where
  "routes =
     [(''GET /sessions'', ListH),
      (''POST /sessions'', CreateH),
      (''POST /sessions/acquire'', AcquireH),
      (''DELETE /sessions/{id}'', DeleteH),
      (''/proxy/{id}'', ProxyH)]"

definition New_http :: "endpoint router outcome" where
  "New_http = register_all routes []"

definition api_router :: "endpoint router" where
  "api_router = (case New_http of Return rt \<Rightarrow> rt | Panic _ \<Rightarrow> [])"

text \<open>What a request is for: an endpoint, with the value of \<open>r.PathValue("id")\<close>, or an answer of the router.\<close>

datatype target =
    ToList | ToCreate | ToAcquire | ToDelete string | ToProxy string
  | MethodNotAllowed | NoPattern | Redirect string | BadRequest

definition mux :: "string \<Rightarrow> string \<Rightarrow> target" where
  "mux m p =
     (case find_handler api_router m p of
        Handler ListH vs \<Rightarrow> ToList
      | Handler CreateH vs \<Rightarrow> ToCreate
      | Handler AcquireH vs \<Rightarrow> ToAcquire
      | Handler DeleteH vs \<Rightarrow> ToDelete (PathValue ''id'' vs)
      | Handler ProxyH vs \<Rightarrow> ToProxy (PathValue ''id'' vs)
      | NotAllowed \<Rightarrow> MethodNotAllowed
      | NotFound \<Rightarrow> NoPattern
      | RedirectTo q \<Rightarrow> Redirect q
      | BadTarget \<Rightarrow> BadRequest)"

text \<open>The texts the router itself answers with.\<close>

definition http_error :: "nat \<Rightarrow> string \<Rightarrow> answer" where
  "http_error code msg = Answer code (Some ''text/plain; charset=utf-8'') (Text (msg @ [newline]))"

section \<open>JSON bodies\<close>

text \<open>\<open>Encode\<close> ends what it writes with a newline.\<close>

definition encode_ids :: "string list \<Rightarrow> string" where
  "encode_ids ids = CHR ''['' # Join (map quote ids) '','' @ CHR '']'' # [newline]"

definition encode_session :: "SessionInfo \<Rightarrow> string" where
  "encode_session si =
     enc_object [(''id'', quote (ID si)), (''chromiumVersion'', encode_version (ChromiumVersion si))] @ [newline]"

definition empty_check :: CheckInfo where
  "empty_check = \<lparr>CheckType = [], Metadata = []\<rparr>"

definition check_names :: "string list" where
  "check_names = [''type'', ''metadata'']"

text \<open>
  The metadata: \<open>null\<close> makes the map nil, an object adds its members to what is there, anything
  else does not fit.
\<close>

definition fits_metadata :: "json \<Rightarrow> bool" where
  "fits_metadata v =
     (case v of JNull \<Rightarrow> True | JObj ms \<Rightarrow> list_all (\<lambda>m. fits_any (snd m)) ms | _ \<Rightarrow> False)"

definition store_metadata :: "json \<Rightarrow> (string, json) gomap \<Rightarrow> (string, json) gomap" where
  "store_metadata v old =
     (case v of JNull \<Rightarrow> [] | JObj ms \<Rightarrow> fold (\<lambda>m. map_put (fst m) (any_value (snd m))) ms old | _ \<Rightarrow> old)"

definition fits_check_field :: "string \<times> json \<Rightarrow> bool" where
  "fits_check_field m =
     (case field_named check_names (fst m) of
        None \<Rightarrow> True
      | Some f \<Rightarrow> if f = ''type'' then fits_string (snd m) else fits_metadata (snd m))"

definition set_check_field :: "string \<times> json \<Rightarrow> CheckInfo \<Rightarrow> CheckInfo" where
  "set_check_field m ci =
     (case field_named check_names (fst m) of
        None \<Rightarrow> ci
      | Some f \<Rightarrow>
          if f = ''type'' then ci\<lparr>CheckType := store_string (snd m) (CheckType ci)\<rparr>
          else ci\<lparr>Metadata := store_metadata (snd m) (Metadata ci)\<rparr>)"

definition decode_CheckInfo :: "json \<Rightarrow> go_error + CheckInfo" where
  "decode_CheckInfo j =
     (case j of
        JNull \<Rightarrow> Inr empty_check
      | JObj ms \<Rightarrow> if list_all fits_check_field ms then Inr (fold set_check_field ms empty_check) else Inl ErrJsonType
      | _ \<Rightarrow> Inl ErrJsonType)"

section \<open>Handlers\<close>

definition List_handler :: "supervisor \<Rightarrow> result" where
  "List_handler s = (Answer 200 (Some ''application/json'') (Json (encode_ids (Sessions s))), [], s)"

text \<open>The check a creation is for, whatever the request carries.\<close>

definition decode_check :: "attrs \<Rightarrow> request \<Rightarrow> CheckInfo \<times> log_entry list" where
  "decode_check lg r =
     (if ContentType r \<noteq> ''application/json''
      then (empty_check,
            [entry lg Info ''no JSON content-type, proceeding with empty CheckInfo''
               [(''content_type'', VStr (ContentType r))]])
      else (case (case read_json (Body r) (BodyEnded r) of Inl err \<Rightarrow> Inl err | Inr j \<Rightarrow> decode_CheckInfo j) of
              Inl err \<Rightarrow>
                (empty_check, [entry lg Warn ''could not decode request body, ignoring'' [(''err'', VErr err)]])
            | Inr ci \<Rightarrow> (ci, [])))"

text \<open>
  \<open>url.URL.String\<close> for the scheme \<open>ws\<close>, a host and a relative path: bytes that are not kept are
  written as two hexadecimal digits.
\<close>

definition alnum :: "char \<Rightarrow> bool" where
  "alnum c \<longleftrightarrow> between 48 c 57 \<or> between 65 c 90 \<or> between 97 c 122"

definition host_char :: "char \<Rightarrow> bool" where
  "host_char c \<longleftrightarrow> alnum c \<or> c \<in> set ''!$&()*+,;=:[]<>-_.~'' \<or> c = CHR 0x27 \<or> c = CHR 0x22"

definition path_char :: "char \<Rightarrow> bool" where
  "path_char c \<longleftrightarrow> alnum c \<or> c \<in> set ''-_.~$&+,/:;=@''"

definition upper_hex :: "nat \<Rightarrow> char" where
  "upper_hex n = (if n < 10 then char_of (48 + n) else char_of (55 + n))"

definition url_escape :: "(char \<Rightarrow> bool) \<Rightarrow> string \<Rightarrow> string" where
  "url_escape keep s =
     concat (map (\<lambda>c. if keep c then [c] else [CHR ''%'', upper_hex (byte_of c div 16), upper_hex (byte_of c mod 16)]) s)"

definition ws_url :: "string \<Rightarrow> string \<Rightarrow> string" where
  "ws_url host p =
     ''ws://'' @ url_escape host_char host @
     (if host \<noteq> [] \<and> p \<noteq> [] \<and> hd p \<noteq> slash then [slash] else []) @ url_escape path_char p"

definition rewrite :: "request \<Rightarrow> SessionInfo \<Rightarrow> SessionInfo" where
  "rewrite r si =
     si\<lparr>ChromiumVersion := (ChromiumVersion si)\<lparr>WebSocketDebuggerURL :=
       ws_url (ReqHost r) (path_Join [''proxy'', ID si])\<rparr>\<rparr>"

definition createSession ::
    "attrs \<Rightarrow> (CheckInfo \<Rightarrow> supervisor \<Rightarrow> (go_error + SessionInfo) outcome \<times> supervisor) \<Rightarrow>
     request \<Rightarrow> supervisor \<Rightarrow> result" where
  "createSession lg creator r s =
     (let (req, lgs) = decode_check lg r
      in (case creator req s of
            (Panic m, s1) \<Rightarrow> (Aborted, lgs, s1)
          | (Return (Inl err), s1) \<Rightarrow>
              if errors_Is err ErrSessionExists then (Answer 409 None (ErrText err), lgs, s1)
              else if errors_Is err ErrDraining then (Answer 503 None (ErrText err), lgs, s1)
              else (Answer 500 None (ErrText err), lgs, s1)
          | (Return (Inr si), s1) \<Rightarrow>
              (Answer 200 (Some ''application/json'') (Json (encode_session (rewrite r si))), lgs, s1)))"

definition Create_handler :: "attrs \<Rightarrow> api_env \<Rightarrow> request \<Rightarrow> supervisor \<Rightarrow> result" where
  "Create_handler lg env r s = createSession lg (Create (api_create env)) r s"

definition Acquire_handler :: "attrs \<Rightarrow> api_env \<Rightarrow> request \<Rightarrow> supervisor \<Rightarrow> result" where
  "Acquire_handler lg env r s = createSession lg (CreateIfFree (api_create env)) r s"

definition Delete_handler :: "api_env \<Rightarrow> string \<Rightarrow> supervisor \<Rightarrow> result" where
  "Delete_handler env sessionID s =
     (if sessionID = [] then (Answer 400 None NoBody, [], s)
      else (case Delete (api_files env) (api_procfs env) sessionID s of
              (found, s1) \<Rightarrow> if \<not> found then (Answer 404 None NoBody, [], s1) else (Answer 200 None NoBody, [], s1)))"

text \<open>The \<open>Director\<close> of the proxy: \<open>Set\<close> replaces every value of a header, \<open>Del\<close> removes them.\<close>

definition Director :: "string \<Rightarrow> headers \<Rightarrow> headers" where
  "Director chromiumHost out =
     filter (\<lambda>(k, v). k \<noteq> ''Origin'') ((''Host'', chromiumHost) # filter (\<lambda>(k, v). k \<noteq> ''Host'') out)"

definition Proxy_handler :: "attrs \<Rightarrow> api_env \<Rightarrow> string \<Rightarrow> supervisor \<Rightarrow> result" where
  "Proxy_handler lg env sessionID s =
     (if sessionID = [] then (Answer 400 None NoBody, [], s)
      else (case Session sessionID s of
              None \<Rightarrow>
                (Answer 404 None NoBody, [entry lg Warn ''sessionID not found'' [(''sessionID'', VStr sessionID)]], s)
            | Some sessionInfo \<Rightarrow>
                (let rawUrl = WebSocketDebuggerURL (ChromiumVersion sessionInfo)
                 in (case api_parse env rawUrl of
                       Inl err \<Rightarrow>
                         (Answer 500 None NoBody,
                          [entry lg Warn ''could not parse ws URL form chromium response''
                             [(''sessionID'', VStr sessionID), (''url'', VStr rawUrl), (''err'', VErr err)]], s)
                     | Inr chromiumHost \<Rightarrow>
                         (Proxied rawUrl (Director chromiumHost),
                          [entry lg Debug ''Proxying WS connection''
                             [(''sessionID'', VStr sessionID), (''chromiumURL'', VStr rawUrl)]], s)))))"

definition ServeHTTP :: "attrs \<Rightarrow> api_env \<Rightarrow> request \<Rightarrow> supervisor \<Rightarrow> result" where
  "ServeHTTP lg env r s =
     (let (a, lgs, s1) =
            (case mux (Method r) (EscPath r) of
               ToList \<Rightarrow> List_handler s
             | ToCreate \<Rightarrow> Create_handler lg env r s
             | ToAcquire \<Rightarrow> Acquire_handler lg env r s
             | ToDelete sid \<Rightarrow> Delete_handler env sid s
             | ToProxy sid \<Rightarrow> Proxy_handler lg env sid s
             | MethodNotAllowed \<Rightarrow> (http_error 405 ''Method Not Allowed'', [], s)
             | NoPattern \<Rightarrow> (http_error 404 ''404 page not found'', [], s)
             | Redirect q \<Rightarrow> (Redirected q, [], s)
             | BadRequest \<Rightarrow> (Answer 400 None NoBody, [], s))
      in (a, entry lg Debug ''handling request'' [(''method'', VStr (Method r)), (''path'', VStr (UrlPath r))] # lgs, s1))"

section \<open>Routing\<close>

text \<open>What the five patterns come to, in closed form.\<close>

definition mux_match :: "string \<Rightarrow> string list \<Rightarrow> target" where
  "mux_match m segs =
     (case segs of
        [a] \<Rightarrow>
          (if a = ''sessions''
           then (if m = ''GET'' \<or> m = ''HEAD'' then ToList
                 else if m = ''POST'' then ToCreate else MethodNotAllowed)
           else NoPattern)
      | [a, sid] \<Rightarrow>
          (if sid = ''/'' then NoPattern
           else if a = ''sessions''
           then (if m = ''POST'' \<and> sid = ''acquire'' then ToAcquire
                 else if m = ''DELETE'' then ToDelete sid else MethodNotAllowed)
           else if a = ''proxy'' then ToProxy sid
           else NoPattern)
      | _ \<Rightarrow> NoPattern)"

lemma routes_register:
  "New_http = Return
     [(\<lparr>pat_method = ''GET'', pat_segs = [Lit ''sessions'']\<rparr>, ListH),
      (\<lparr>pat_method = ''POST'', pat_segs = [Lit ''sessions'']\<rparr>, CreateH),
      (\<lparr>pat_method = ''POST'', pat_segs = [Lit ''sessions'', Lit ''acquire'']\<rparr>, AcquireH),
      (\<lparr>pat_method = ''DELETE'', pat_segs = [Lit ''sessions'', Wild ''id'']\<rparr>, DeleteH),
      (\<lparr>pat_method = [], pat_segs = [Lit ''proxy'', Wild ''id'']\<rparr>, ProxyH)]"
  by (simp add: New_http_def routes_def Handle_def parse_pattern_def parse_path_def parse_segment_def conflicts_def
      compare_methods_def compare_paths_def combine_def)

lemma unescape_Nil [simp]: "unescape s = [] \<longleftrightarrow> s = []"
  by (cases s rule: unescape.cases) simp_all

lemma segments_last: "segments p \<noteq> [] \<Longrightarrow> last (segments p) \<noteq> []"
  by (cases "p = [] \<or> hd p \<noteq> slash"; cases "last (Split (tl p) slash) = []") (simp_all add: segments_def Let_def)

lemma api_methods_none:
  "m \<notin> {''GET'', ''POST'', ''DELETE'', []} \<Longrightarrow> method_child m api_router = []"
  unfolding api_router_def routes_register outcome.case child_Cons pattern.select_convs by auto

lemma api_methods:
  "method_child ''GET'' api_router = [([Lit ''sessions''], \<lparr>pat_method = ''GET'', pat_segs = [Lit ''sessions'']\<rparr>, ListH)]"
  "method_child ''POST'' api_router =
     [([Lit ''sessions''], \<lparr>pat_method = ''POST'', pat_segs = [Lit ''sessions'']\<rparr>, CreateH),
      ([Lit ''sessions'', Lit ''acquire''], \<lparr>pat_method = ''POST'', pat_segs = [Lit ''sessions'', Lit ''acquire'']\<rparr>, AcquireH)]"
  "method_child ''DELETE'' api_router =
     [([Lit ''sessions'', Wild ''id''], \<lparr>pat_method = ''DELETE'', pat_segs = [Lit ''sessions'', Wild ''id'']\<rparr>, DeleteH)]"
  "method_child [] api_router =
     [([Lit ''proxy'', Wild ''id''], \<lparr>pat_method = [], pat_segs = [Lit ''proxy'', Wild ''id'']\<rparr>, ProxyH)]"
  by (simp_all add: api_router_def routes_register)

lemma match_wild:
  assumes "l \<noteq> []" "ss = [] \<or> last ss \<noteq> []"
  shows "match_path [([Lit l, Wild w], n)] ss ms =
    (case ss of [a, b] \<Rightarrow> if a = l \<and> b \<noteq> ''/'' then Some (n, ms @ [b]) else None | _ \<Rightarrow> None)"
  using assms by (auto simp: find_child_def split: list.splits)

lemma match_literal:
  assumes "l \<noteq> []"
  shows "match_path [([Lit l], n)] ss ms = (if ss = [l] then Some (n, ms) else None)"
  using assms by (cases ss; cases "tl ss") (auto simp: find_child_def)

lemma match_literals:
  assumes "l \<noteq> []" "k \<noteq> []"
  shows "match_path [([Lit l], n), ([Lit l, Lit k], n')] ss ms =
    (if ss = [l] then Some (n, ms) else if ss = [l, k] then Some (n', ms) else None)"
  using assms by (cases ss; cases "tl ss"; cases "tl (tl ss)") (auto simp: find_child_def)

lemma match_api:
  assumes "ss = [] \<or> last ss \<noteq> []"
  shows "match_method api_router m ss =
    (case ss of
       [a] \<Rightarrow>
         if a = ''sessions'' \<and> (m = ''GET'' \<or> m = ''HEAD'')
         then Some ((\<lparr>pat_method = ''GET'', pat_segs = [Lit ''sessions'']\<rparr>, ListH), [])
         else if a = ''sessions'' \<and> m = ''POST''
         then Some ((\<lparr>pat_method = ''POST'', pat_segs = [Lit ''sessions'']\<rparr>, CreateH), [])
         else None
     | [a, b] \<Rightarrow>
         if a = ''sessions'' \<and> b = ''acquire'' \<and> m = ''POST''
         then Some ((\<lparr>pat_method = ''POST'', pat_segs = [Lit ''sessions'', Lit ''acquire'']\<rparr>, AcquireH), [])
         else if a = ''sessions'' \<and> b \<noteq> ''/'' \<and> m = ''DELETE''
         then Some ((\<lparr>pat_method = ''DELETE'', pat_segs = [Lit ''sessions'', Wild ''id'']\<rparr>, DeleteH), [b])
         else if a = ''proxy'' \<and> b \<noteq> ''/''
         then Some ((\<lparr>pat_method = [], pat_segs = [Lit ''proxy'', Wild ''id'']\<rparr>, ProxyH), [b])
         else None
     | _ \<Rightarrow> None)"
proof -
  note defs = match_method_def api_methods api_methods_none match_wild
  consider "m = ''GET''" | "m = ''HEAD''" | "m = ''POST''" | "m = ''DELETE''" | "m = []"
    | "m \<notin> {''GET'', ''POST'', ''DELETE'', []}" "m \<noteq> ''HEAD''" by blast
  then show ?thesis
  proof cases
    case 1
    then show ?thesis
      using assms by (cases ss; cases "tl ss"; cases "tl (tl ss)"; simp add: defs match_literal del: match_path.simps)
  next
    case 2
    then show ?thesis
      using assms by (cases ss; cases "tl ss"; cases "tl (tl ss)"; simp add: defs match_literal del: match_path.simps)
  next
    case 3
    then show ?thesis
      using assms by (cases ss; cases "tl ss"; cases "tl (tl ss)"; simp add: defs match_literals del: match_path.simps)
  next
    case 4
    then show ?thesis
      using assms by (cases ss; cases "tl ss"; cases "tl (tl ss)"; simp add: defs match_literals del: match_path.simps)
  next
    case 5
    then show ?thesis
      using assms by (cases ss; cases "tl ss"; cases "tl (tl ss)"; simp add: defs match_literals del: match_path.simps)
  next
    case 6
    then show ?thesis
      using assms by (cases ss; cases "tl ss"; cases "tl (tl ss)"; simp add: defs match_literals del: match_path.simps)
  qed
qed

lemma allowed_api:
  assumes "ss = [] \<or> last ss \<noteq> []"
  shows "allowed_methods api_router ss \<noteq> [] \<longleftrightarrow>
    ss = [''sessions''] \<or> (\<exists>b. ss = [''sessions'', b] \<and> b \<noteq> ''/'')"
proof -
  have r: "map (\<lambda>(p, h). pat_method p) api_router = [''GET'', ''POST'', ''POST'', ''DELETE'', []]"
    by (simp add: api_router_def routes_register)
  show ?thesis
    by (simp add: allowed_methods_def r api_methods match_wild [OF _ assms] match_literal match_literals split: list.splits)
qed

lemma mux_closed:
  "mux m p =
     (if p = ''*'' then BadRequest
      else if m \<noteq> ''CONNECT'' \<and> cleanPath p \<noteq> p then Redirect (cleanPath p)
      else mux_match m (segments p))"
proof -
  obtain ss where ss: "segments p = ss" and l: "ss = [] \<or> last ss \<noteq> []" using segments_last by blast
  show ?thesis
    using l unfolding ss mux_def find_handler_def
    by (cases ss; cases "tl ss"; cases "tl (tl ss)")
      (simp_all add: match_api allowed_api mux_match_def wild_names_def PathValue_def)
qed

text \<open>
  C39.  The routes.  Registering the five patterns does not panic, and the library's search through the
  registered patterns gives, for every method and path, the handler of the closed form \<open>mux_match\<close>: a
  path is for a session only if it has two segments and the second is not a final slash.
\<close>

theorem mux_equiv:
  "(\<exists>rt. New_http = Return rt) \<and>
   mux m p =
     (if p = ''*'' then BadRequest
      else if m \<noteq> ''CONNECT'' \<and> cleanPath p \<noteq> p then Redirect (cleanPath p)
      else mux_match m (segments p))"
  using routes_register mux_closed by blast

lemma mux_match_cases:
  obtains "mux_match m segs \<in> {NoPattern, MethodNotAllowed}"
  | "mux_match m segs \<in> {ToList, ToCreate}" "segs = [''sessions'']"
  | "mux_match m segs = ToAcquire" "segs = [''sessions'', ''acquire'']"
  | sid where "mux_match m segs = ToDelete sid" "segs = [''sessions'', sid]" "sid \<noteq> ''/''"
  | sid where "mux_match m segs = ToProxy sid" "segs = [''proxy'', sid]" "sid \<noteq> ''/''"
proof -
  consider a where "segs = [a]" | a sid where "segs = [a, sid]"
    | "\<And>a. segs \<noteq> [a]" "\<And>a sid. segs \<noteq> [a, sid]" by blast
  then show thesis
  proof cases
    case (1 a)
    then have "mux_match m segs \<in> {NoPattern, MethodNotAllowed} \<or>
        mux_match m segs \<in> {ToList, ToCreate} \<and> a = ''sessions''"
      by (simp add: mux_match_def)
    then show thesis using that(1,2) 1 by blast
  next
    case (2 a sid)
    then have "mux_match m segs \<in> {NoPattern, MethodNotAllowed} \<or>
        mux_match m segs = ToAcquire \<and> a = ''sessions'' \<and> sid = ''acquire'' \<or>
        mux_match m segs = ToDelete sid \<and> a = ''sessions'' \<and> sid \<noteq> ''/'' \<or>
        mux_match m segs = ToProxy sid \<and> a = ''proxy'' \<and> sid \<noteq> ''/''"
      by (simp add: mux_match_def)
    then show thesis using that 2 by blast
  next
    case 3
    then have "mux_match m segs = NoPattern" by (auto simp: mux_match_def split: list.splits)
    then show thesis using that(1) by simp
  qed
qed

text \<open>The decoded path of a request, by where the router sends it.\<close>

lemma mux_targets:
  "mux m p \<in> {ToList, ToCreate} \<Longrightarrow> unescape p = ''/sessions''"
  "mux m p = ToAcquire \<Longrightarrow> unescape p = ''/sessions/acquire''"
  "mux m p = ToDelete sid \<Longrightarrow> unescape p = ''/sessions/'' @ sid \<and> sid \<noteq> []"
  "mux m p = ToProxy sid \<Longrightarrow> unescape p = ''/proxy/'' @ sid \<and> sid \<noteq> []"
  using segments_path [of p "segments p"] segments_last [of p]
  by (cases rule: mux_match_cases [of m "segments p"]; auto simp: mux_closed abs_path_def split: if_splits)+

text \<open>
  C40.  Labels of requests.  The label a request is counted under is one of five values, whatever
  its path; for a request the router gives to a handler it is the path of the handler's pattern, with one
  exception: \<open>DELETE /sessions/acquire\<close>, which the router matches with \<open>/sessions/{id}\<close>, is counted under
  \<open>/sessions/acquire\<close>.
\<close>

theorem Route_labels:
  "Route (unescape p) \<in> {''/sessions'', ''/sessions/acquire'', ''/sessions/{id}'', ''/proxy/{id}'', ''unknown''} \<and>
   (case mux m p of
      ToList \<Rightarrow> Route (unescape p) = ''/sessions''
    | ToCreate \<Rightarrow> Route (unescape p) = ''/sessions''
    | ToAcquire \<Rightarrow> Route (unescape p) = ''/sessions/acquire''
    | ToDelete sid \<Rightarrow> Route (unescape p) = (if sid = ''acquire'' then ''/sessions/acquire'' else ''/sessions/{id}'')
    | ToProxy sid \<Rightarrow> Route (unescape p) = ''/proxy/{id}''
    | _ \<Rightarrow> True)"
proof -
  have "Route (''/sessions/'' @ sid) = (if sid = ''acquire'' then ''/sessions/acquire'' else ''/sessions/{id}'')" for sid
    by (simp add: Route_def)
  moreover have "Route (''/proxy/'' @ sid) = ''/proxy/{id}''" for sid
    by (simp add: Route_def)
  moreover have "Route ''/sessions'' = ''/sessions''" "Route ''/sessions/acquire'' = ''/sessions/acquire''"
    by (simp_all add: Route_def)
  moreover have "Route (unescape p) \<in> {''/sessions'', ''/sessions/acquire'', ''/sessions/{id}'', ''/proxy/{id}'', ''unknown''}"
    by (simp add: Route_def)
  ultimately show ?thesis
    using mux_targets [of m p] by (auto split: target.splits simp del: append.simps)
qed

text \<open>A path of ordinary segments without percent signs is what the router takes it for.\<close>

definition plain_segment :: "string \<Rightarrow> bool" where
  "plain_segment s \<longleftrightarrow> plain_elem s \<and> CHR ''%'' \<notin> set s"

lemma plain_segmentD: "plain_segment s \<Longrightarrow> plain_elem s" "plain_segment s \<Longrightarrow> s \<noteq> []" "plain_segment s \<Longrightarrow> slash \<notin> set s"
  by (simp_all add: plain_segment_def plain_elem_def)

lemma mux_plain:
  assumes "es \<noteq> []" "list_all plain_segment es"
  shows "mux m (abs_path es) = mux_match m es"
proof -
  have es: "list_all plain_elem es" "list_all (\<lambda>e. CHR ''%'' \<notin> set e) es"
    using assms(2) by (simp_all add: list_all_iff plain_segment_def)
  have "abs_path es \<noteq> ''*''" by (simp add: abs_path_def)
  then show ?thesis
    by (simp add: mux_closed cleanPath_plain [OF assms(1) es(1)] segments_abs_path [OF assms(1) es])
qed

lemma mux_session_path:
  assumes "plain_segment sid"
  shows "mux m (''/proxy/'' @ sid) = ToProxy sid" "mux ''DELETE'' (''/sessions/'' @ sid) = ToDelete sid"
proof -
  have p: "list_all plain_segment [''proxy'', sid]" "list_all plain_segment [''sessions'', sid]" "sid \<noteq> ''/''"
    using assms by (auto simp: plain_segment_def plain_elem_def)
  have "abs_path [''proxy'', sid] = ''/proxy/'' @ sid" "abs_path [''sessions'', sid] = ''/sessions/'' @ sid"
    by (simp_all add: abs_path_def)
  then show "mux m (''/proxy/'' @ sid) = ToProxy sid" "mux ''DELETE'' (''/sessions/'' @ sid) = ToDelete sid"
    using mux_plain [OF _ p(1)] mux_plain [OF _ p(2)] p(3) by (simp_all add: mux_match_def del: append.simps)
qed

section \<open>Creating through the API\<close>

text \<open>
  What \<open>createSession\<close> relies on: a creation that reports one of the two refusals has changed
  nothing, a session that is returned is found under its id, and no call changes how the
  program is configured.
\<close>

locale session_creator =
  fixes creator :: "CheckInfo \<Rightarrow> supervisor \<Rightarrow> (go_error + SessionInfo) outcome \<times> supervisor"
  assumes refused: "creator ci s = (Return (Inl e), s') \<Longrightarrow>
      errors_Is e ErrSessionExists \<or> errors_Is e ErrDraining \<Longrightarrow> s' = s"
    and found: "creator ci s = (Return (Inr si), s') \<Longrightarrow> Session (ID si) s' = Some si"
    and plain_id: "creator ci s = (Return (Inr si), s') \<Longrightarrow> plain_segment (ID si)"
begin

lemma statuses:
  "fst (createSession lg creator r s) = Answer st ct b \<Longrightarrow> st \<in> {200, 409, 500, 503}"
  by (auto simp: createSession_def Let_def case_prod_unfold split: outcome.splits sum.splits if_splits)

lemma refusal_changes_nothing:
  assumes "createSession lg creator r s = (Answer st ct b, lgs, s')" "st = 409 \<or> st = 503"
  shows "s' = s"
  using assms refused [of "fst (decode_check lg r)" s]
  by (cases "creator (fst (decode_check lg r)) s")
    (auto simp: createSession_def Let_def case_prod_unfold split: outcome.splits sum.splits if_splits)

lemma success:
  assumes "createSession lg creator r s = (Answer 200 ct b, lgs, s')"
  obtains si where "b = Json (encode_session (rewrite r si))" "Session (ID si) s' = Some si" "plain_segment (ID si)"
    "creator (fst (decode_check lg r)) s = (Return (Inr si), s')"
  using assms found [of "fst (decode_check lg r)" s] plain_id [of "fst (decode_check lg r)" s]
  by (cases "creator (fst (decode_check lg r)) s")
    (auto simp: createSession_def Let_def case_prod_unfold split: outcome.splits sum.splits if_splits)

end

lemma create_refused_same:
  assumes "create env ci f s = (Return (Inl e), s')" "errors_Is e ErrSessionExists \<or> errors_Is e ErrDraining"
  shows "s' = s"
proof (cases rule: create_begin_cases [of s env ci f])
  case (probing p s1)
  obtain res t n where v: "Version (env_world env) (pending_deadline p s1) (p_start p) = (res, t, n)"
    by (cases "Version (env_world env) (pending_deadline p s1) (p_start p)")
  have res: "res = Inl e" using create_probing [OF probing(4) v refl] assms(1) by (cases res) simp_all
  show ?thesis using assms(2) unfolding Version_error [OF v [unfolded Version_def res]] by simp
qed (use assms(1) in \<open>simp_all add: create_def\<close>)

lemma hex_plain: "length sid = 12 \<Longrightarrow> \<forall>c \<in> set sid. is_hex c \<Longrightarrow> plain_segment sid"
proof -
  assume l: "length sid = 12" and h: "\<forall>c \<in> set sid. is_hex c"
  have "\<not> is_hex slash" "\<not> is_hex (CHR ''%'')" by (simp_all add: is_hex_def)
  then have "slash \<notin> set sid" "CHR ''%'' \<notin> set sid" using h by blast+
  moreover have "sid \<noteq> []" using l by auto
  moreover have "sid \<noteq> ''.''" using l by auto
  moreover have "sid \<noteq> ''..''" using l by auto
  ultimately show "plain_segment sid" by (simp add: plain_segment_def plain_elem_def)
qed

lemma create_found:
  assumes "create env ci f s = (Return (Inr si), s')"
  shows "Session (ID si) s' = Some si" "plain_segment (ID si)" "list_all is_hex (ID si)"
proof -
  obtain p s1 where b: "create_begin env ci f s = (Probing p, s1)" and id: "ID si = p_id p"
    and sess: "sessions s' = [(p_id p, \<lparr>info = si, cancel = p_ctx p, logger = session_logger (p_id p) ci s\<rparr>)]"
    using create_made [OF assms] by (metis SessionInfo.select_convs(1))
  show "Session (ID si) s' = Some si" by (simp add: Session_def sess id)
  show "plain_segment (ID si)" "list_all is_hex (ID si)"
    using randString_hex [OF create_begin_probing(3) [OF b]] by (simp_all add: id hex_plain list_all_iff)
qed

interpretation creating: session_creator "Create env"
  by unfold_locales (auto simp: Create_def create_refused_same create_found)

interpretation acquiring: session_creator "CreateIfFree env"
  by unfold_locales (auto simp: CreateIfFree_def create_refused_same create_found)

section \<open>Reading the bodies\<close>

lemma session_reads:
  "read_json (encode_session si) err =
     Inr (JObj [(''id'', JStr (sanitize (ID si))), (''chromiumVersion'', version_json (valid_version (ChromiumVersion si)))])"
  unfolding encode_session_def
proof (rule read_json_reads)
  have n: "sanitize ''id'' = ''id''" "sanitize ''chromiumVersion'' = ''chromiumVersion''"
    by (simp_all add: sanitize_ascii ascii_def)
  show "jvalue 0 (enc_object [(''id'', quote (ID si)), (''chromiumVersion'', encode_version (ChromiumVersion si))] @ t) =
      Got (JObj [(''id'', JStr (sanitize (ID si))), (''chromiumVersion'', version_json (valid_version (ChromiumVersion si)))]) t" for t
    by (rule object_reads) (simp_all add: n reads_as_def jvalue_quote jvalue_version maxNestingDepth_def)
qed (simp add: jscalar_def)

lemma ids_read: "read_json (encode_ids ids) err = Inr (JArr (map (\<lambda>sid. JStr (sanitize sid)) ids))"
  using str.array [of 0 ids] read_json_reads [of "CHR ''['' # Join (map quote ids) '','' @ CHR '']'' # []"
      "JArr (map (\<lambda>sid. JStr (sanitize sid)) ids)" "[newline]" err]
  by (simp add: encode_ids_def jscalar_def maxNestingDepth_def)

text \<open>A check whose metadata are strings, as a client writes it.\<close>

definition check_body :: "string \<Rightarrow> (string \<times> string) list \<Rightarrow> string" where
  "check_body ty md = enc_object [(''type'', quote ty), (''metadata'', enc_object (map (\<lambda>(k, v). (k, quote v)) md))]"

lemma put_new: "distinct (map fst (m @ kvs)) \<Longrightarrow> fold (\<lambda>kv. map_put (fst kv) (snd kv)) kvs m = m @ kvs"
proof (induction kvs arbitrary: m)
  case (Cons kv kvs)
  have "map_put (fst kv) (snd kv) m = m @ [kv]"
    using Cons.prems by (induction m) auto
  then show ?case using Cons.IH [of "m @ [kv]"] Cons.prems by simp
qed simp

lemma check_body_reads:
  assumes "ascii ty" "list_all (\<lambda>(k, v). ascii k \<and> ascii v) md" "distinct (map fst md)"
  shows "(case read_json (check_body ty md @ rest) err of Inl e \<Rightarrow> Inl e | Inr j \<Rightarrow> decode_CheckInfo j) =
     Inr \<lparr>CheckType = ty, Metadata = map (\<lambda>(k, v). (k, JStr v)) md\<rparr>"
proof -
  let ?md = "map (\<lambda>(k, v). (k, JStr v)) md"
  have n: "sanitize ''type'' = ''type''" "sanitize ''metadata'' = ''metadata''"
    by (simp_all add: sanitize_ascii ascii_def)
  have "list_all2 (reads_as 2) (map (\<lambda>(k, v). (k, quote v)) md) ?md"
    using assms(2) by (induction md) (auto simp: reads_as_def jvalue_quote sanitize_ascii)
  then have md: "jvalue 1 (enc_object (map (\<lambda>(k, v). (k, quote v)) md) @ t) = Got (JObj ?md) t" for t
    by (intro object_reads) (simp_all add: maxNestingDepth_def numeral_2_eq_2)
  have "read_json (check_body ty md @ rest) err = Inr (JObj [(''type'', JStr ty), (''metadata'', JObj ?md)])"
    unfolding check_body_def
    by (intro read_json_reads object_reads)
      (simp_all add: reads_as_def jvalue_quote n sanitize_ascii [OF assms(1)] md [simplified] maxNestingDepth_def jscalar_def)
  moreover have "list_all (\<lambda>m. fits_any (snd m)) ?md"
    by (auto simp: list_all_iff)
  moreover have "fold (\<lambda>m. map_put (fst m) (any_value (snd m))) ?md [] = ?md"
  proof -
    have "fold (\<lambda>m. map_put (fst m) (any_value (snd m))) ?md x = fold (\<lambda>kv. map_put (fst kv) (snd kv)) ?md x" for x
      by (rule fold_cong) auto
    moreover have "distinct (map fst ([] @ ?md))"
      using assms(3) by (simp add: comp_def case_prod_unfold)
    ultimately show ?thesis using put_new [of "[]" ?md] by simp
  qed
  moreover have "field_named check_names ''type'' = Some ''type''" "field_named check_names ''metadata'' = Some ''metadata''"
    by (simp_all add: field_named_def check_names_def)
  ultimately show ?thesis
    by (simp add: decode_CheckInfo_def fits_check_field_def set_check_field_def fits_metadata_def store_metadata_def
        empty_check_def)
qed

lemma url_escape_kept: "list_all keep s \<Longrightarrow> url_escape keep s = s"
  by (induction s) (auto simp: url_escape_def)

lemma upper_hex_ascii: "n < 16 \<Longrightarrow> byte_of (upper_hex n) < 0x80"
  by (simp add: upper_hex_def of_char_of)

lemma url_escape_ascii: "(\<And>c. keep c \<Longrightarrow> byte_of c < 0x80) \<Longrightarrow> ascii (url_escape keep s)"
proof (induction s)
  case (Cons c s)
  have "byte_of c div 16 < 16" by (simp add: less_mult_imp_div_less)
  then show ?case using Cons upper_hex_ascii [of "byte_of c div 16"] upper_hex_ascii [of "byte_of c mod 16"]
    by (auto simp: url_escape_def ascii_def)
qed (simp add: url_escape_def ascii_def)

lemma hex_alnum: "is_hex c \<Longrightarrow> alnum c" "is_hex c \<Longrightarrow> byte_of c < 0x80"
  by (auto simp: is_hex_def alnum_def between_def)

lemma alnum_simps: "alnum (CHR ''p'')" "alnum (CHR ''r'')" "alnum (CHR ''o'')" "alnum (CHR ''x'')" "alnum (CHR ''y'')"
  by (simp_all add: alnum_def between_def)

lemma host_char_ascii: "host_char c \<Longrightarrow> byte_of c < 0x80"
  by (auto simp: host_char_def alnum_def between_def)

section \<open>What a client sees\<close>

lemma mux_fixed:
  "mux ''POST'' ''/sessions/acquire'' = ToAcquire" "mux ''POST'' ''/sessions'' = ToCreate"
  "mux ''GET'' ''/sessions'' = ToList" "mux ''DELETE'' ''/sessions/'' = NoPattern"
proof -
  have p: "list_all plain_segment [''sessions'', ''acquire'']" "list_all plain_segment [''sessions'']"
    by (simp_all add: plain_segment_def plain_elem_def)
  show "mux ''POST'' ''/sessions/acquire'' = ToAcquire" "mux ''POST'' ''/sessions'' = ToCreate"
    "mux ''GET'' ''/sessions'' = ToList"
    using mux_plain [OF _ p(1)] mux_plain [OF _ p(2)] by (simp_all add: abs_path_def mux_match_def)
  show "mux ''DELETE'' ''/sessions/'' = NoPattern"
    by (simp add: mux_closed segments_def mux_match_def cleanPath_def Clean_def Let_def unescape_plain)
qed

lemma create_error_cases:
  assumes "create env ci f s = (Return (Inl e), s')" "\<not> draining s" "f \<longrightarrow> sessions s = []"
  shows "e = Errorf ''retries exhausted trying to reach chromium: %w'' [] (Some DeadlineExceeded)"
proof (cases rule: create_begin_cases [of s env ci f])
  case (probing p s1)
  obtain res t n where v: "Version (env_world env) (pending_deadline p s1) (p_start p) = (res, t, n)"
    by (cases "Version (env_world env) (pending_deadline p s1) (p_start p)")
  have res: "res = Inl e" using create_probing [OF probing(4) v refl] assms(1) by (cases res) simp_all
  show ?thesis by (rule Version_error [OF v [unfolded Version_def res]])
qed (use assms in \<open>simp_all add: create_def\<close>)

text \<open>
  C10.  Acquiring never disturbs.  \<open>POST /sessions/acquire\<close> answers 503 while draining and 409 while a
  session exists, in both cases with the error's text and without any change to the
  supervisor; otherwise it answers 200, or 500 with a text that says that chromium could not be reached,
  or the connection is aborted by a panic.
\<close>

theorem acquire_status:
  assumes "Method r = ''POST''" and "EscPath r = ''/sessions/acquire''"
    and "ServeHTTP lg env r s = (a, lgs, s')"
  shows "(draining s \<longrightarrow> a = Answer 503 None (ErrText ErrDraining) \<and> s' = s) \<and>
    (\<not> draining s \<and> Sessions s \<noteq> [] \<longrightarrow> a = Answer 409 None (ErrText ErrSessionExists) \<and> s' = s) \<and>
    (\<not> draining s \<and> Sessions s = [] \<longrightarrow>
      (case a of
         Answer st ct b \<Rightarrow> st = 200 \<or> st = 500 \<and> (\<exists>e. b = ErrText e \<and>
           error_text e = Some ''retries exhausted trying to reach chromium: context deadline exceeded'')
       | Proxied u h \<Rightarrow> False | Redirected u \<Rightarrow> False | Aborted \<Rightarrow> True))"
proof -
  obtain ci lgs0 where d: "decode_check lg r = (ci, lgs0)" by (cases "decode_check lg r")
  have h: "(a, s') = (fst (createSession lg (CreateIfFree (api_create env)) r s),
      snd (snd (createSession lg (CreateIfFree (api_create env)) r s)))"
    using assms by (simp add: ServeHTTP_def mux_fixed Acquire_handler_def case_prod_unfold Let_def)
  obtain o1 s1 where c: "CreateIfFree (api_create env) ci s = (o1, s1)"
    by (cases "CreateIfFree (api_create env) ci s")
  have refuse: "draining s \<Longrightarrow> o1 = Return (Inl ErrDraining) \<and> s1 = s"
    "\<not> draining s \<Longrightarrow> Sessions s \<noteq> [] \<Longrightarrow> o1 = Return (Inl ErrSessionExists) \<and> s1 = s"
    using c by (auto simp: CreateIfFree_def create_def create_begin_def Sessions_def map_keys_def)
  have other: "e = Errorf ''retries exhausted trying to reach chromium: %w'' [] (Some DeadlineExceeded)"
    if "o1 = Return (Inl e)" "\<not> draining s" "Sessions s = []" for e
    using create_error_cases [of "api_create env" ci True s e s1] c that
    by (simp add: CreateIfFree_def Sessions_def map_keys_def)
  have msg: "error_text (Errorf ''retries exhausted trying to reach chromium: %w'' [] (Some DeadlineExceeded)) =
      Some ''retries exhausted trying to reach chromium: context deadline exceeded''"
    by simp
  show ?thesis
  proof (intro conjI impI)
    assume "draining s"
    then show "a = Answer 503 None (ErrText ErrDraining)" "s' = s"
      using h d c refuse(1) by (auto simp: createSession_def)
  next
    assume "\<not> draining s \<and> Sessions s \<noteq> []"
    then show "a = Answer 409 None (ErrText ErrSessionExists)" "s' = s"
      using h d c refuse(2) by (auto simp: createSession_def)
  next
    assume "\<not> draining s \<and> Sessions s = []"
    then show "case a of
         Answer st ct b \<Rightarrow> st = 200 \<or> st = 500 \<and> (\<exists>e. b = ErrText e \<and>
           error_text e = Some ''retries exhausted trying to reach chromium: context deadline exceeded'')
       | Proxied u h \<Rightarrow> False | Redirected u \<Rightarrow> False | Aborted \<Rightarrow> True"
      using h d c other by (cases o1; cases "case o1 of Return x \<Rightarrow> x | Panic m \<Rightarrow> undefined")
        (auto simp: createSession_def msg simp del: error_text.simps)
  qed
qed

definition sample_body :: string where
  "sample_body =
     enc_object [(''type'', quote ''browser''),
       (''metadata'', enc_object [(''secret'', quote ''x''), (''tenantID'', quote ''3'')])]"

definition sample_request :: request where
  "sample_request = \<lparr>Method = ''POST'', EscPath = ''/sessions'', ReqHost = ''croco:8080'',
     ContentType = ''application/json'', Body = sample_body, BodyEnded = None\<rparr>"

definition sample_api :: api_env where
  "sample_api = \<lparr>api_create = sample_env answering, api_files = sample_fs ''/f'' [], api_procfs = sample_procfs,
     api_parse = (\<lambda>_. Inr ''127.0.0.1:5222'')\<rparr>"

theorem acquire_status_witness:
  "\<exists>lgs. ServeHTTP [] sample_api (sample_request\<lparr>EscPath := ''/sessions/acquire''\<rparr>) two_sessions =
     (Answer 409 None (ErrText ErrSessionExists), lgs, two_sessions)"
proof -
  obtain a lgs s' where c: "ServeHTTP [] sample_api (sample_request\<lparr>EscPath := ''/sessions/acquire''\<rparr>) two_sessions = (a, lgs, s')"
    by (cases "ServeHTTP [] sample_api (sample_request\<lparr>EscPath := ''/sessions/acquire''\<rparr>) two_sessions") auto
  show ?thesis
    using acquire_status [OF _ _ c] c by (simp add: sample_request_def Sessions_def)
qed

lemma path_Join_proxy: "plain_elem sid \<Longrightarrow> path_Join [''proxy'', sid] = ''proxy/'' @ sid"
proof -
  assume sid: "plain_elem sid"
  have "Split (''proxy/'' @ sid) slash = [''proxy'', sid]"
    using Split_no_sep [OF plain_elemD(2) [OF sid]] by simp
  then have "Clean (''proxy/'' @ sid) = ''proxy/'' @ sid"
    using clean_elems_plain [of "[''proxy'', sid]" False "[]"] sid
    by (simp add: Clean_def Let_def plain_elem_def)
  then show ?thesis using sid by (simp add: path_Join_def plain_elem_def)
qed

lemma Director_headers:
  "filter (\<lambda>(k, v). k = ''Host'') (Director h out) = [(''Host'', h)]"
  "filter (\<lambda>(k, v). k = ''Origin'') (Director h out) = []"
proof -
  have "filter (\<lambda>(k, v). k = ''Host'') (filter (\<lambda>(k, v). k \<noteq> ''Origin'') (filter (\<lambda>(k, v). k \<noteq> ''Host'') out)) = []"
    by (auto simp: filter_empty_conv)
  then show "filter (\<lambda>(k, v). k = ''Host'') (Director h out) = [(''Host'', h)]" by (simp add: Director_def)
  show "filter (\<lambda>(k, v). k = ''Origin'') (Director h out) = []"
    by (auto simp: Director_def filter_empty_conv)
qed

lemma ServeHTTP_created:
  assumes "Method r = ''POST''" "EscPath r \<in> {''/sessions'', ''/sessions/acquire''}"
    and "ServeHTTP lg env r s = (Answer 200 ct b, lgs, s')"
  obtains si f where "create (api_create env) (fst (decode_check lg r)) f s = (Return (Inr si), s')"
    "b = Json (encode_session (rewrite r si))"
proof (cases "EscPath r = ''/sessions''")
  case True
  then obtain lgs' where "createSession lg (Create (api_create env)) r s = (Answer 200 ct b, lgs', s')"
    using assms by (cases "createSession lg (Create (api_create env)) r s")
      (auto simp: ServeHTTP_def mux_fixed Create_handler_def)
  then show thesis by (rule creating.success) (use that in \<open>auto simp: Create_def\<close>)
next
  case False
  then obtain lgs' where "createSession lg (CreateIfFree (api_create env)) r s = (Answer 200 ct b, lgs', s')"
    using assms by (cases "createSession lg (CreateIfFree (api_create env)) r s")
      (auto simp: ServeHTTP_def mux_fixed Acquire_handler_def)
  then show thesis by (rule acquiring.success) (use that in \<open>auto simp: CreateIfFree_def\<close>)
qed

lemma ServeHTTP_create:
  assumes "Method r = ''POST''" "EscPath r \<in> {''/sessions'', ''/sessions/acquire''}"
    and "ServeHTTP lg env r s = (Answer 200 ct b, lgs, s')"
  obtains si where "b = Json (encode_session (rewrite r si))" "Session (ID si) s' = Some si" "plain_segment (ID si)"
    "list_all is_hex (ID si)"
proof -
  obtain si f where "create (api_create env) (fst (decode_check lg r)) f s = (Return (Inr si), s')"
    "b = Json (encode_session (rewrite r si))" by (rule ServeHTTP_created [OF assms])
  then show thesis using that create_found by blast
qed

text \<open>The answer to a creation, read back, and the request for the path in it.\<close>

lemma session_url:
  assumes "Method r = ''POST''" and "EscPath r \<in> {''/sessions'', ''/sessions/acquire''}" and "ReqHost r \<noteq> []"
    and "ServeHTTP lg env r s = (Answer 200 ct (Json bytes), lgs, s')"
  shows "\<exists>own. Session (ID own) s' = Some own \<and> plain_segment (ID own) \<and>
    read_json bytes None = Inr (JObj [(''id'', JStr (ID own)),
      (''chromiumVersion'', version_json ((valid_version (ChromiumVersion own))\<lparr>WebSocketDebuggerURL :=
         ''ws://'' @ url_escape host_char (ReqHost r) @ ''/proxy/'' @ ID own\<rparr>))]) \<and>
    (\<forall>lg2 env2 r2 h. api_parse env2 (WebSocketDebuggerURL (ChromiumVersion own)) = Inr h \<longrightarrow>
       fst (ServeHTTP lg2 env2 (r2\<lparr>EscPath := ''/proxy/'' @ ID own\<rparr>) s') =
         Proxied (WebSocketDebuggerURL (ChromiumVersion own)) (Director h)) \<and>
    (\<forall>h out. filter (\<lambda>(k, v). k = ''Host'') (Director h out) = [(''Host'', h)] \<and>
      filter (\<lambda>(k, v). k = ''Origin'') (Director h out) = [])"
proof -
  obtain own where own: "Json bytes = Json (encode_session (rewrite r own))" "Session (ID own) s' = Some own"
    "plain_segment (ID own)" "list_all is_hex (ID own)"
    by (rule ServeHTTP_create [OF assms(1,2,4)])
  define url where "url = ''ws://'' @ url_escape host_char (ReqHost r) @ ''/proxy/'' @ ID own"
  have hex: "ascii (ID own)" "url_escape path_char (''proxy/'' @ ID own) = ''proxy/'' @ ID own"
    using own(4) by (simp_all add: list_all_iff hex_alnum ascii_def url_escape_kept path_char_def alnum_simps)
  have "ascii url" using url_escape_ascii [of host_char "ReqHost r", OF host_char_ascii] hex(1) by (simp add: url_def ascii_def)
  moreover have "rewrite r own = own\<lparr>ChromiumVersion := (ChromiumVersion own)\<lparr>WebSocketDebuggerURL := url\<rparr>\<rparr>"
    by (simp add: rewrite_def path_Join_proxy [OF plain_segmentD(1) [OF own(3)]] ws_url_def assms(3) hex(2) url_def del: append.simps)
  ultimately have js: "read_json bytes None = Inr (JObj [(''id'', JStr (ID own)),
      (''chromiumVersion'', version_json ((valid_version (ChromiumVersion own))\<lparr>WebSocketDebuggerURL := url\<rparr>))])"
    using own(1) by (simp add: session_reads sanitize_ascii hex(1) valid_version_def)
  have "fst (ServeHTTP lg2 env2 (r2\<lparr>EscPath := ''/proxy/'' @ ID own\<rparr>) s') =
      Proxied (WebSocketDebuggerURL (ChromiumVersion own)) (Director h)"
    if "api_parse env2 (WebSocketDebuggerURL (ChromiumVersion own)) = Inr h" for h lg2 env2 r2
    using mux_session_path(1) [OF own(3), of "Method r2"] own that
    by (simp add: ServeHTTP_def Proxy_handler_def Let_def plain_segmentD(2) case_prod_unfold del: append.simps)
  then show ?thesis using js own(2,3) unfolding url_def by (auto simp: Director_headers)
qed

lemma sample_body_reads: "decode_check [] sample_request = (sample_check, [])"
  using check_body_reads [of "''browser''" "[(''secret'', ''x''), (''tenantID'', ''3'')]" "[]" None]
  by (simp add: decode_check_def sample_request_def sample_body_def check_body_def ascii_def sample_check_def)

lemma sample_ServeHTTP:
  "\<exists>bytes lgs s'. ServeHTTP [] sample_api sample_request two_sessions =
     (Answer 200 (Some ''application/json'') (Json bytes), lgs, s')"
proof -
  obtain si s' where "create (sample_env answering) sample_check False two_sessions = (Return (Inr si), s')"
    using sample_create_ok by blast
  moreover have "Method sample_request = ''POST''" "EscPath sample_request = ''/sessions''"
    by (simp_all add: sample_request_def)
  ultimately show ?thesis
    by (simp add: ServeHTTP_def sample_api_def mux_fixed Create_handler_def createSession_def sample_body_reads
        Create_def)
qed

text \<open>
  C13.  The labels of a request reach the session's logger.  When a creation whose body is the JSON of a check
  with string metadata, with anything after it, is answered with 200, the one session there is
  then logs its id and exactly those metadata whose names are allowed.
\<close>

theorem body_labels_logged:
  assumes "Method r = ''POST''" and "EscPath r \<in> {''/sessions'', ''/sessions/acquire''}"
    and "ContentType r = ''application/json''" and "Body r = check_body ty md @ rest"
    and "ascii ty" and "list_all (\<lambda>(k, v). ascii k \<and> ascii v) md" and "distinct (map fst md)"
    and "ServeHTTP lg env r s = (Answer 200 ct b, lgs, s')"
  shows "\<exists>sid sess. sessions s' = [(sid, sess)] \<and>
    logger sess = sup_logger s @ (''sessionID'', VStr sid) #
      map (\<lambda>(k, v). (k, VStr v)) (filter (\<lambda>(k, v). k \<in> {''regionID'', ''tenantID'', ''id''}) md)"
proof -
  obtain si f where c: "create (api_create env) (fst (decode_check lg r)) f s = (Return (Inr si), s')"
    by (rule ServeHTTP_created [OF assms(1,2,8)])
  have d: "fst (decode_check lg r) = \<lparr>CheckType = ty, Metadata = map (\<lambda>(k, v). (k, JStr v)) md\<rparr>"
    using check_body_reads [OF assms(5-7), of rest "BodyEnded r"] by (simp add: decode_check_def assms(3,4))
  have l: "map (\<lambda>(k, v). (k, attr_of v)) (filter (\<lambda>(k, v). k \<in> set allowedLabels) (map (\<lambda>(k, v). (k, JStr v)) md)) =
      map (\<lambda>(k, v). (k, VStr v)) (filter (\<lambda>(k, v). k \<in> {''regionID'', ''tenantID'', ''id''}) md)"
    by (simp add: filter_map comp_def case_prod_unfold attr_of_def allowedLabels_def)
  obtain sid sess where "sessions s' = [(sid, sess)]" "logger sess = session_logger sid (fst (decode_check lg r)) s"
    by (rule create_made [OF c]) simp
  then show ?thesis unfolding d session_logger_def by (simp add: l)
qed

theorem body_labels_logged_witness:
  "\<exists>ct b lgs s' sid sess. ServeHTTP [] sample_api sample_request two_sessions = (Answer 200 ct b, lgs, s') \<and>
     sessions s' = [(sid, sess)] \<and> (''tenantID'', VStr ''3'') \<in> set (logger sess)"
proof -
  obtain bytes lgs s' where c: "ServeHTTP [] sample_api sample_request two_sessions =
      (Answer 200 (Some ''application/json'') (Json bytes), lgs, s')" using sample_ServeHTTP by blast
  have b: "Body sample_request = check_body ''browser'' [(''secret'', ''x''), (''tenantID'', ''3'')] @ []"
    by (simp add: sample_request_def sample_body_def check_body_def)
  have m: "Method sample_request = ''POST''" "EscPath sample_request \<in> {''/sessions'', ''/sessions/acquire''}"
    "ContentType sample_request = ''application/json''" "ascii ''browser''"
    "list_all (\<lambda>(k, v). ascii k \<and> ascii v) [(''secret'', ''x''), (''tenantID'', ''3'')]"
    "distinct (map fst [(''secret'', ''x''), (''tenantID'', ''3'')])"
    by (simp_all add: sample_request_def ascii_def)
  obtain sid sess where "sessions s' = [(sid, sess)]" "(''tenantID'', VStr ''3'') \<in> set (logger sess)"
    using body_labels_logged [OF m(1-3) b m(4-6) c] by auto
  then show ?thesis using c by blast
qed

text \<open>
  Deleting through the API.  \<open>DELETE /sessions/{id}\<close> answers 200 exactly when the session was in
  the table, and then it is gone, and 404 otherwise, and then nothing has changed; repeated, it
  answers 404.
\<close>

theorem delete_status:
  assumes "Method r = ''DELETE''" and "EscPath r = ''/sessions/'' @ sid" and "plain_segment sid"
    and "ServeHTTP lg env r s = (a, lgs, s')"
  shows "a = Answer (if sid \<in> set (Sessions s) then 200 else 404) None NoBody \<and>
    (sid \<notin> set (Sessions s) \<longrightarrow> s' = s) \<and> set (Sessions s') = set (Sessions s) - {sid} \<and>
    fst (ServeHTTP lg2 env2 r s') = Answer 404 None NoBody"
proof -
  have serve: "ServeHTTP lg e r u =
      (Answer (if map_get (sessions u) sid = None then 404 else 200) None NoBody,
       [entry lg Debug ''handling request'' [(''method'', VStr (Method r)), (''path'', VStr (UrlPath r))]],
       snd (deleteWithReason (api_files e) (api_procfs e) sid TerminationReasonDeleted u))" for lg e u
    using mux_session_path(2) [OF assms(3)] assms(1-3)
    by (cases "map_get (sessions u) sid")
      (simp_all add: ServeHTTP_def Delete_handler_def Delete_def plain_segmentD(2) deleteWithReason_absent
        case_prod_unfold deleteWithReason_present(1) del: append.simps)
  have a: "a = Answer (if map_get (sessions s) sid = None then 404 else 200) None NoBody"
    and s': "s' = snd (deleteWithReason (api_files env) (api_procfs env) sid TerminationReasonDeleted s)"
    using assms(4) unfolding serve by blast+
  have m: "k \<in> set (Sessions u) \<longleftrightarrow> map_get (sessions u) k \<noteq> None" for k u
    unfolding Sessions_def by (rule smap.keys_get)
  have "sid \<notin> set (Sessions s) \<longrightarrow> s' = s" unfolding s' m by (simp add: deleteWithReason_absent)
  moreover have "set (Sessions s') = set (Sessions s) - {sid}"
    by (rule set_eqI) (simp add: m s' deleteWithReason_sessions smap.get_del)
  moreover have "fst (ServeHTTP lg2 env2 r s') = Answer 404 None NoBody"
    by (simp add: serve s' deleted_absent)
  moreover have "a = Answer (if sid \<in> set (Sessions s) then 200 else 404) None NoBody" unfolding a m by simp
  ultimately show ?thesis by blast
qed

theorem delete_status_witness:
  "\<exists>lgs s'. ServeHTTP [] sample_api (sample_request\<lparr>Method := ''DELETE'', EscPath := ''/sessions/a''\<rparr>) two_sessions =
       (Answer 200 None NoBody, lgs, s') \<and> set (Sessions s') = {''b''}"
proof -
  obtain a lgs s' where c: "ServeHTTP [] sample_api (sample_request\<lparr>Method := ''DELETE'', EscPath := ''/sessions/a''\<rparr>)
      two_sessions = (a, lgs, s')"
    by (cases "ServeHTTP [] sample_api (sample_request\<lparr>Method := ''DELETE'', EscPath := ''/sessions/a''\<rparr>) two_sessions") auto
  have "plain_segment ''a''" by (simp add: plain_segment_def plain_elem_def)
  then show ?thesis
    using delete_status [OF _ _ _ c, of "''a''"] c by (auto simp: Sessions_def)
qed

text \<open>
  No bad requests.  No request for a path is ever answered with 400: the router gives an empty id to no
  handler, so the checks for one in \<open>Delete\<close> and \<open>Proxy\<close> cannot fail, and deleting a session
  with an empty id is answered with 404.
\<close>

theorem never_bad_request:
  "(EscPath r \<noteq> ''*'' \<longrightarrow> fst (ServeHTTP lg env r s) \<noteq> Answer 400 ct b) \<and>
   fst (ServeHTTP lg env (r\<lparr>Method := ''DELETE'', EscPath := ''/sessions/''\<rparr>) s) = http_error 404 ''404 page not found''"
proof -
  have c: "fst (createSession lg f r s) \<noteq> Answer 400 ct b" for f
    by (auto simp: createSession_def Let_def case_prod_unfold split: outcome.splits sum.splits if_splits)
  have "fst (ServeHTTP lg env r s) \<noteq> Answer 400 ct b" if "EscPath r \<noteq> ''*''"
  proof (cases "mux (Method r) (EscPath r)")
    case (ToDelete sid)
    then show ?thesis
      using mux_targets(3) [OF ToDelete] by (simp add: ServeHTTP_def Delete_handler_def case_prod_unfold)
  next
    case (ToProxy sid)
    then show ?thesis
      using mux_targets(4) [OF ToProxy]
      by (simp add: ServeHTTP_def Proxy_handler_def case_prod_unfold Let_def split: option.split sum.split)
  next
    case BadRequest
    then show ?thesis using that
      by (cases rule: mux_match_cases [of "Method r" "segments (EscPath r)"]) (auto simp: mux_closed split: if_splits)
  qed (use c in \<open>simp_all add: ServeHTTP_def List_handler_def Create_handler_def Acquire_handler_def
      case_prod_unfold Let_def http_error_def\<close>)
  then show ?thesis by (simp add: ServeHTTP_def mux_fixed)
qed

section \<open>Sequences of requests\<close>

fun serve_all :: "attrs \<Rightarrow> (api_env \<times> request) list \<Rightarrow> supervisor \<Rightarrow> answer list \<times> supervisor" where
  "serve_all lg [] s = ([], s)"
| "serve_all lg ((env, r) # rs) s =
     (let (a, lgs, s1) = ServeHTTP lg env r s; (as, s2) = serve_all lg rs s1 in (a # as, s2))"

lemma create_after:
  assumes "create env ci f s = (r, s')" "mtx s = None"
  shows "mtx s' = None" "crashed s \<Longrightarrow> crashed s'"
proof -
  have "mtx s' = None \<and> (crashed s \<longrightarrow> crashed s')"
  proof (cases rule: create_begin_cases [of s env ci f])
    case (probing p s1)
    obtain res t n where v: "Version (env_world env) (pending_deadline p s1) (p_start p) = (res, t, n)"
      by (cases "Version (env_world env) (pending_deadline p s1) (p_start p)")
    show ?thesis
      using create_probing [OF probing(4) v refl] assms(1) create_begin_probing(15) [OF probing(4)]
        meanwhile_crashed [of s1 "env_events env"] by auto
  qed (use assms in \<open>auto simp: create_def\<close>)
  then show "mtx s' = None" "crashed s \<Longrightarrow> crashed s'" by simp_all
qed

lemma createSession_state: "snd (snd (createSession lg f r s)) = snd (f (fst (decode_check lg r)) s)"
  by (cases "f (fst (decode_check lg r)) s")
    (auto simp: createSession_def Let_def case_prod_unfold split: outcome.splits sum.splits)

lemma ServeHTTP_state:
  "snd (snd (ServeHTTP lg env r s)) = s \<or>
   (\<exists>f ci. snd (snd (ServeHTTP lg env r s)) = snd (create (api_create env) ci f s)) \<or>
   (\<exists>sid. snd (snd (ServeHTTP lg env r s)) = snd (Delete (api_files env) (api_procfs env) sid s))"
proof (cases "mux (Method r) (EscPath r)")
  case ToCreate
  then have "snd (snd (ServeHTTP lg env r s)) = snd (create (api_create env) (fst (decode_check lg r)) False s)"
    by (simp add: ServeHTTP_def Create_handler_def case_prod_unfold Let_def createSession_state Create_def)
  then show ?thesis by blast
next
  case ToAcquire
  then have "snd (snd (ServeHTTP lg env r s)) = snd (create (api_create env) (fst (decode_check lg r)) True s)"
    by (simp add: ServeHTTP_def Acquire_handler_def case_prod_unfold Let_def createSession_state CreateIfFree_def)
  then show ?thesis by blast
next
  case (ToDelete sid)
  then show ?thesis by (auto simp: ServeHTTP_def Delete_handler_def case_prod_unfold Let_def)
next
  case (ToProxy sid)
  then show ?thesis
    by (simp add: ServeHTTP_def Proxy_handler_def case_prod_unfold Let_def split: option.split sum.split)
qed (simp_all add: ServeHTTP_def List_handler_def case_prod_unfold)

lemma ServeHTTP_run:
  assumes "mtx s = None" "s' = snd (snd (ServeHTTP lg env r s))"
  shows "mtx s' = None" "crashed s \<Longrightarrow> crashed s'" "\<not> crashed s \<Longrightarrow> \<not> crashed s' \<Longrightarrow> \<exists>ls. run step s ls s'"
proof -
  consider "s' = s" | f ci where "s' = snd (create (api_create env) ci f s)"
    | sid where "s' = snd (Delete (api_files env) (api_procfs env) sid s)"
    using ServeHTTP_state [of lg env r s] assms(2) by blast
  then have "mtx s' = None \<and> (crashed s \<longrightarrow> crashed s') \<and> (\<not> crashed s \<longrightarrow> \<not> crashed s' \<longrightarrow> (\<exists>ls. run step s ls s'))"
  proof cases
    case 1
    then show ?thesis using assms(1) by (auto intro: run.run_Nil)
  next
    case (2 f ci)
    then show ?thesis
      using create_after [of "api_create env" ci f s "fst (create (api_create env) ci f s)" s']
        create_run_of [of s "api_create env" ci f "fst (create (api_create env) ci f s)" s'] assms(1)
      by simp
  next
    case (3 sid)
    have "run step s [DeleteCall (api_files env) (api_procfs env) sid] s'" if "\<not> crashed s"
      using step.delete [OF that assms(1)] 3 by (simp add: run_Cons_iff)
    then show ?thesis using 3 assms(1) by (auto simp: Delete_def)
  qed
  then show "mtx s' = None" "crashed s \<Longrightarrow> crashed s'" "\<not> crashed s \<Longrightarrow> \<not> crashed s' \<Longrightarrow> \<exists>ls. run step s ls s'"
    by blast+
qed

lemma serve_all_run:
  assumes "mtx s = None" "\<not> crashed (snd (serve_all lg rs s))"
  shows "\<not> crashed s \<and> mtx (snd (serve_all lg rs s)) = None \<and> (\<exists>ls. run step s ls (snd (serve_all lg rs s)))"
  using assms
proof (induction rs arbitrary: s)
  case Nil
  then show ?case by (auto intro: run.run_Nil)
next
  case (Cons x rs)
  obtain env r where x: "x = (env, r)" by (cases x)
  define s1 where "s1 = snd (snd (ServeHTTP lg env r s))"
  have e: "snd (serve_all lg (x # rs) s) = snd (serve_all lg rs s1)"
    by (simp add: x s1_def case_prod_unfold Let_def)
  note h = ServeHTTP_run [OF Cons.prems(1) s1_def]
  have IH: "\<not> crashed s1 \<and> mtx (snd (serve_all lg rs s1)) = None \<and> (\<exists>ls. run step s1 ls (snd (serve_all lg rs s1)))"
    using Cons.IH [OF h(1)] Cons.prems(2) unfolding e by blast
  obtain ms where ms: "run step s1 ms (snd (serve_all lg rs s1))" using IH by blast
  have ns: "\<not> crashed s" using IH h(2) by blast
  then obtain ls where "run step s ls s1" using IH h(3) by blast
  from run_append [OF this ms] show ?case using IH ns unfolding e by blast
qed

text \<open>
  C21.  Whatever clients ask for.  After any sequence of requests served from a reachable state, each with
  anything going on while it probes chromium, the state is reachable, so there is at most
  one session, the metrics agree with it, and \<open>GET /sessions\<close> answers with the JSON of
  exactly the ids of the sessions there are and changes nothing.
\<close>

theorem requests_keep_one_session:
  assumes "reach starts step s" and "mtx s = None" and "s' = snd (serve_all lg rs s)" and "\<not> crashed s'"
  shows "reach starts step s' \<and> length (Sessions s') \<le> 1 \<and> active_gauge (metrics s') = length (Sessions s') \<and>
    (\<exists>lgs bytes. ServeHTTP lg env (r\<lparr>Method := ''GET'', EscPath := ''/sessions''\<rparr>) s' =
         (Answer 200 (Some ''application/json'') (Json bytes), lgs, s') \<and>
       read_json bytes None = Inr (JArr (map (\<lambda>sid. JStr (sanitize sid)) (Sessions s'))))"
proof -
  obtain ls where ls: "run step s ls s'" using serve_all_run [OF assms(2)] assms(3,4) by blast
  then have r: "reach starts step s'" by (rule reach_run [OF assms(1)])
  then have "table_inv s'" using sup.inv_reach by (simp add: sup_inv_def)
  then show ?thesis
    using r by (simp add: table_inv_def Sessions_def map_keys_def ServeHTTP_def mux_fixed List_handler_def ids_read)
qed

theorem requests_keep_one_session_witness:
  "reach starts step (snd (serve_all [] [(sample_api, sample_request\<lparr>Method := ''DELETE'', EscPath := ''/sessions/a''\<rparr>)] sample_start))"
proof -
  have "plain_segment ''a''" by (simp add: plain_segment_def plain_elem_def)
  then have "mux ''DELETE'' ''/sessions/a'' = ToDelete ''a''" using mux_session_path(2) [of "''a''"] by simp
  then have c: "\<not> crashed (snd (serve_all [] [(sample_api, sample_request\<lparr>Method := ''DELETE'', EscPath := ''/sessions/a''\<rparr>)] sample_start))"
    by (simp add: ServeHTTP_def Delete_handler_def Delete_def case_prod_unfold Let_def)
  have r: "reach starts step sample_start"
    by (rule reach.reach_init [where init = starts and step = step, OF sample_starts])
  from requests_keep_one_session [OF r sample_start_simps(2) refl c] show ?thesis by blast
qed

end
