(* ===== verification/Build_Version.thy ===== *)
theory Build_Version
  imports Go_Strings "HOL-Library.Multiset"
begin

text \<open>
  Model of \<open>internal/version/version.go\<close>: the version string the binary reports, and the lookup
  of a build setting by binary search in the sorted settings.  What
  \<open>runtime/debug.ReadBuildInfo\<close> returns and the value the linker puts into \<open>version\<close> are
  parameters.
\<close>

section \<open>The slices package\<close>

text \<open>\<open>strings.Compare\<close>: the lexicographic order of the bytes as -1, 0 or 1.\<close>

fun Compare :: "string \<Rightarrow> string \<Rightarrow> int" where
  "Compare [] [] = 0"
| "Compare [] (b # t) = -1"
| "Compare (a # s) [] = 1"
| "Compare (a # s) (b # t) =
     (if of_char a < (of_char b :: nat) then -1
      else if of_char b < (of_char a :: nat) then 1
      else Compare s t)"

text \<open>
  \<open>slices.SortFunc\<close> sorts by a comparison function; the library does not say how, and for a
  comparison that is zero on equal elements only, the result does not depend on it.
\<close>

fun sort_insert :: "('a \<Rightarrow> 'a \<Rightarrow> int) \<Rightarrow> 'a \<Rightarrow> 'a list \<Rightarrow> 'a list" where
  "sort_insert cmp x [] = [x]"
| "sort_insert cmp x (y # ys) =
     (if cmp x y \<le> 0 then x # y # ys else y # sort_insert cmp x ys)"

definition SortFunc :: "('a \<Rightarrow> 'a \<Rightarrow> int) \<Rightarrow> 'a list \<Rightarrow> 'a list" where
  "SortFunc cmp xs = foldr (sort_insert cmp) xs []"

text \<open>
  The loop of \<open>slices.BinarySearchFunc\<close> over the half-open range from \<open>i\<close> to \<open>j\<close>; the midpoint
  does not overflow because the library computes it unsigned.
\<close>

function bsearch :: "(nat \<Rightarrow> bool) \<Rightarrow> nat \<Rightarrow> nat \<Rightarrow> nat" where
  "bsearch below i j =
     (if i < j then
        (let h = (i + j) div 2 in if below h then bsearch below (h + 1) j else bsearch below i h)
      else i)"
  by pat_completeness auto
termination
  by (relation "measure (\<lambda>(below, i, j). j - i)") auto

declare bsearch.simps [simp del]

definition BinarySearchFunc :: "'a list \<Rightarrow> 'k \<Rightarrow> ('a \<Rightarrow> 'k \<Rightarrow> int) \<Rightarrow> nat \<times> bool" where
  "BinarySearchFunc xs target cmp =
     (let i = bsearch (\<lambda>h. cmp (xs ! h) target < 0) 0 (length xs)
      in (i, i < length xs \<and> cmp (xs ! i) target = 0))"

section \<open>version.go\<close>

datatype build_setting = BuildSetting (Key: string) (Value: string)

record build_info =
  Main_Version :: string
  Settings :: "build_setting list"

definition revisionKey :: string where
  "revisionKey = ''vcs.revision''"

definition timeKey :: string where
  "timeKey = ''vcs.time''"

definition cmpBuildSettings :: "build_setting \<Rightarrow> build_setting \<Rightarrow> int" where
  "cmpBuildSettings a b =
     (let v = Compare (Key a) (Key b) in if v \<noteq> 0 then v else Compare (Value a) (Value b))"

definition isKey :: "build_setting \<Rightarrow> string \<Rightarrow> int" where
  "isKey a key = Compare (Key a) key"

text \<open>\<open>getBuildInfo\<close>, computed once: \<open>None\<close> is the nil pointer.\<close>

definition getBuildInfo :: "build_info option \<Rightarrow> build_info option" where
  "getBuildInfo readBuildInfo =
     (case readBuildInfo of
        None \<Rightarrow> None
      | Some bi \<Rightarrow> Some (bi\<lparr>Settings := SortFunc cmpBuildSettings (Settings bi)\<rparr>))"

definition getBuildInfoByKey :: "build_info option \<Rightarrow> string \<Rightarrow> string" where
  "getBuildInfoByKey readBuildInfo key =
     (case getBuildInfo readBuildInfo of
        None \<Rightarrow> ''invalid''
      | Some bi \<Rightarrow>
          (let (idx, found) = BinarySearchFunc (Settings bi) key isKey
           in if found then Value (Settings bi ! idx) else ''unknown''))"

definition Commit :: "build_info option \<Rightarrow> string" where
  "Commit readBuildInfo = getBuildInfoByKey readBuildInfo revisionKey"

definition Buildstamp :: "build_info option \<Rightarrow> string" where
  "Buildstamp readBuildInfo = getBuildInfoByKey readBuildInfo timeKey"

text \<open>\<open>Short\<close>: reading a field through the nil pointer panics.\<close>

definition Short :: "string \<Rightarrow> build_info option \<Rightarrow> string outcome" where
  "Short version readBuildInfo =
     (if version \<noteq> [] then Return version
      else (case getBuildInfo readBuildInfo of
              None \<Rightarrow> Panic ''invalid memory address or nil pointer dereference''
            | Some bi \<Rightarrow> Return (Main_Version bi)))"

section \<open>Sorting by a comparison\<close>

locale comparison =
  fixes cmp :: "'a \<Rightarrow> 'a \<Rightarrow> int"
  assumes cmp_zero: "cmp a b = 0 \<longleftrightarrow> a = b"
    and cmp_swap: "cmp a b < 0 \<longleftrightarrow> 0 < cmp b a"
    and cmp_trans: "cmp a b < 0 \<Longrightarrow> cmp b c < 0 \<Longrightarrow> cmp a c < 0"
begin

lemma cmp_le_trans: "cmp a b \<le> 0 \<Longrightarrow> cmp b c \<le> 0 \<Longrightarrow> cmp a c \<le> 0"
  by (metis cmp_trans cmp_zero order_le_less)

lemma cmp_total: "0 < cmp a b \<Longrightarrow> cmp b a \<le> 0"
  using cmp_swap by (simp add: order_le_less)

lemma cmp_antisym: "cmp a b \<le> 0 \<Longrightarrow> cmp b a \<le> 0 \<Longrightarrow> a = b"
  by (metis cmp_swap cmp_zero leD order_le_less)

lemma mset_sort_insert: "mset (sort_insert cmp x xs) = add_mset x (mset xs)"
  by (induction xs) auto

lemma mset_SortFunc: "mset (SortFunc cmp xs) = mset xs"
  by (induction xs) (auto simp: SortFunc_def mset_sort_insert)

lemma set_sort_insert: "set (sort_insert cmp x xs) = insert x (set xs)"
  by (metis mset_sort_insert set_mset_add_mset_insert set_mset_mset)

lemma set_SortFunc: "set (SortFunc cmp xs) = set xs"
  by (metis mset_SortFunc set_mset_mset)

lemma sorted_sort_insert:
  "sorted_wrt (\<lambda>a b. cmp a b \<le> 0) xs \<Longrightarrow> sorted_wrt (\<lambda>a b. cmp a b \<le> 0) (sort_insert cmp x xs)"
  by (induction xs) (auto simp: set_sort_insert intro: cmp_le_trans cmp_total)

lemma sorted_SortFunc: "sorted_wrt (\<lambda>a b. cmp a b \<le> 0) (SortFunc cmp xs)"
  by (induction xs) (auto simp: SortFunc_def sorted_sort_insert)

text \<open>Any two sorted arrangements of the same elements are equal.\<close>

lemma sorted_unique:
  "sorted_wrt (\<lambda>a b. cmp a b \<le> 0) xs \<Longrightarrow> sorted_wrt (\<lambda>a b. cmp a b \<le> 0) ys \<Longrightarrow>
   mset xs = mset ys \<Longrightarrow> xs = ys"
proof (induction xs arbitrary: ys)
  case (Cons x xs)
  then obtain y ys' where ys: "ys = y # ys'" by (cases ys) auto
  have "x \<in> set ys" "y \<in> set (x # xs)"
    using Cons.prems(3) ys by (metis list.set_intros(1) mset_eq_setD)+
  then have "x = y \<or> cmp x y \<le> 0 \<and> cmp y x \<le> 0"
    using Cons.prems(1,2) ys by auto
  then have "x = y" using cmp_antisym by blast
  with Cons ys show ?case by auto
qed simp

end

text \<open>The binary search loop finds the border of a predicate that is closed downwards.\<close>

lemma bsearch_border:
  assumes "\<And>a b. a \<le> b \<Longrightarrow> b < n \<Longrightarrow> below b \<Longrightarrow> below a"
    and "i \<le> j" "\<forall>m < i. below m" "\<forall>m. j \<le> m \<longrightarrow> m < n \<longrightarrow> \<not> below m" "j \<le> n"
  shows "bsearch below i j \<le> n \<and> (\<forall>m < bsearch below i j. below m) \<and>
    (\<forall>m. bsearch below i j \<le> m \<longrightarrow> m < n \<longrightarrow> \<not> below m)"
  using assms
proof (induction below i j rule: bsearch.induct)
  case (1 below i j)
  note prems = "1.prems"
  show ?case
  proof (cases "i < j")
    case False
    then have "bsearch below i j = i" by (simp add: bsearch.simps [of below i j])
    with prems False show ?thesis by auto
  next
    case True
    define h where "h = (i + j) div 2"
    have h: "i \<le> h" "h < j" "h < n" using True prems(5) by (auto simp: h_def)
    show ?thesis
    proof (cases "below h")
      case b: True
      have "\<forall>m < h + 1. below m" using b h(3) prems(1) by (metis Suc_eq_plus1 less_Suc_eq_le)
      then have "bsearch below (h + 1) j \<le> n \<and> (\<forall>m < bsearch below (h + 1) j. below m) \<and>
          (\<forall>m. bsearch below (h + 1) j \<le> m \<longrightarrow> m < n \<longrightarrow> \<not> below m)"
        using h prems by (intro "1.IH"(1) [OF True h_def b]) auto
      with b True show ?thesis by (simp add: bsearch.simps [of below i j] Let_def flip: h_def)
    next
      case b: False
      have "\<forall>m. h \<le> m \<longrightarrow> m < n \<longrightarrow> \<not> below m" using b prems(1) by blast
      then have "bsearch below i h \<le> n \<and> (\<forall>m < bsearch below i h. below m) \<and>
          (\<forall>m. bsearch below i h \<le> m \<longrightarrow> m < n \<longrightarrow> \<not> below m)"
        using h prems by (intro "1.IH"(2) [OF True h_def b]) auto
      with b True show ?thesis by (simp add: bsearch.simps [of below i j] Let_def flip: h_def)
    qed
  qed
qed

text \<open>
  A search by key in a sorted list works when the key comparison agrees with the order of the
  elements: what is below the key comes before what is not, and likewise above.
\<close>

locale key_search = comparison cmp
  for cmp :: "'a \<Rightarrow> 'a \<Rightarrow> int" +
  fixes kcmp :: "'a \<Rightarrow> 'k \<Rightarrow> int"
  assumes below_mono: "cmp a b \<le> 0 \<Longrightarrow> kcmp b k < 0 \<Longrightarrow> kcmp a k < 0"
    and above_mono: "cmp a b \<le> 0 \<Longrightarrow> 0 < kcmp a k \<Longrightarrow> 0 < kcmp b k"
begin

lemma sorted_nth:
  "sorted_wrt (\<lambda>a b. cmp a b \<le> 0) xs \<Longrightarrow> m \<le> n \<Longrightarrow> n < length xs \<Longrightarrow> cmp (xs ! m) (xs ! n) \<le> 0"
  using cmp_zero [of "xs ! m" "xs ! m"] by (cases "m = n") (auto simp: sorted_wrt_iff_nth_less)

lemma BinarySearchFunc_first:
  assumes sorted: "sorted_wrt (\<lambda>a b. cmp a b \<le> 0) xs"
    and res: "BinarySearchFunc xs k kcmp = (i, found)"
  shows "found \<longleftrightarrow> (\<exists>x \<in> set xs. kcmp x k = 0)"
    and "found \<Longrightarrow> i < length xs \<and> kcmp (xs ! i) k = 0 \<and>
           (\<forall>x \<in> set xs. kcmp x k = 0 \<longrightarrow> cmp (xs ! i) x \<le> 0)"
proof -
  have i: "i = bsearch (\<lambda>h. kcmp (xs ! h) k < 0) 0 (length xs)"
    and f: "found \<longleftrightarrow> i < length xs \<and> kcmp (xs ! i) k = 0"
    using res by (auto simp: BinarySearchFunc_def Let_def)
  have "i \<le> length xs \<and> (\<forall>m < i. kcmp (xs ! m) k < 0) \<and>
      (\<forall>m. i \<le> m \<longrightarrow> m < length xs \<longrightarrow> \<not> kcmp (xs ! m) k < 0)"
    unfolding i
    by (rule bsearch_border) (auto intro: below_mono sorted_nth [OF sorted])
  then have lo: "\<forall>m < i. kcmp (xs ! m) k < 0"
    and hi: "\<forall>m. i \<le> m \<longrightarrow> m < length xs \<longrightarrow> 0 \<le> kcmp (xs ! m) k" by auto
  have at: "i \<le> m \<and> kcmp (xs ! i) k = 0 \<and> cmp (xs ! i) (xs ! m) \<le> 0"
    if m: "m < length xs" "kcmp (xs ! m) k = 0" for m
  proof -
    have im: "i \<le> m" using lo m(2) by (metis less_irrefl not_le)
    then have le: "cmp (xs ! i) (xs ! m) \<le> 0" using m(1) by (rule sorted_nth [OF sorted])
    have "0 \<le> kcmp (xs ! i) k" using hi im m(1) by auto
    then have "kcmp (xs ! i) k = 0" using above_mono [OF le, of k] m(2) by force
    with im le show ?thesis by simp
  qed
  show found: "found \<longleftrightarrow> (\<exists>x \<in> set xs. kcmp x k = 0)"
    using f at by (metis in_set_conv_nth le_less_trans nth_mem)
  assume found
  with f at show "i < length xs \<and> kcmp (xs ! i) k = 0 \<and>
           (\<forall>x \<in> set xs. kcmp x k = 0 \<longrightarrow> cmp (xs ! i) x \<le> 0)"
    by (metis in_set_conv_nth)
qed

end

section \<open>The comparisons of version.go\<close>

lemma of_char_inj: "(of_char a :: nat) = of_char b \<longleftrightarrow> a = b"
  by (simp add: of_char_eq_iff)

lemma Compare_zero: "Compare s t = 0 \<longleftrightarrow> s = t"
  by (induction s t rule: Compare.induct) (auto simp: of_char_inj)

lemma Compare_self [simp]: "Compare s s = 0"
  by (simp add: Compare_zero)

lemma Compare_swap: "Compare s t = - Compare t s"
  by (induction s t rule: Compare.induct) simp_all

lemma Compare_Cons_less:
  "Compare (a # s) (b # t) < 0 \<longleftrightarrow>
     (of_char a :: nat) < of_char b \<or> a = b \<and> Compare s t < 0"
  using of_char_inj [of a b] by auto

lemma Compare_trans: "Compare s t < 0 \<Longrightarrow> Compare t u < 0 \<Longrightarrow> Compare s u < 0"
proof (induction s t arbitrary: u rule: Compare.induct)
  case (4 a s b t)
  obtain c u' where u: "u = c # u'" using 4(3) by (cases u) simp_all
  have ab: "(of_char a :: nat) < of_char b \<or> a = b \<and> Compare s t < 0"
    using 4(2) by (simp only: Compare_Cons_less)
  have bc: "(of_char b :: nat) < of_char c \<or> b = c \<and> Compare t u' < 0"
    using 4(3) unfolding u by (simp only: Compare_Cons_less)
  have "Compare s u' < 0" if "a = b" "b = c" "Compare s t < 0" "Compare t u' < 0"
    using that 4(1) by simp
  with ab bc show ?case unfolding u Compare_Cons_less by (metis less_trans)
next
  case (2 b t)
  then show ?case by (cases u) auto
qed auto

lemmas Compare_laws = Compare_zero Compare_swap Compare_trans

interpretation bytes: comparison Compare
proof
  fix a b
  show "Compare a b = 0 \<longleftrightarrow> a = b" by (rule Compare_zero)
  show "Compare a b < 0 \<longleftrightarrow> 0 < Compare b a" using Compare_swap [of a b] by auto
qed (rule Compare_trans)

lemma cmpBuildSettings_le:
  "cmpBuildSettings a b \<le> 0 \<longleftrightarrow>
     Compare (Key a) (Key b) < 0 \<or> Key a = Key b \<and> Compare (Value a) (Value b) \<le> 0"
  using Compare_zero [of "Key a" "Key b"] by (auto simp: cmpBuildSettings_def Let_def)

lemma cmpBuildSettings_less:
  "cmpBuildSettings a b < 0 \<longleftrightarrow>
     Compare (Key a) (Key b) < 0 \<or> Key a = Key b \<and> Compare (Value a) (Value b) < 0"
  by (auto simp: cmpBuildSettings_def Let_def Compare_zero)

interpretation settings: key_search cmpBuildSettings isKey
proof
  fix a b
  show "cmpBuildSettings a b = 0 \<longleftrightarrow> a = b"
    by (cases a; cases b) (auto simp: cmpBuildSettings_def Let_def Compare_zero)
  show "cmpBuildSettings a b < 0 \<longleftrightarrow> 0 < cmpBuildSettings b a"
    using Compare_swap [of "Key a" "Key b"] Compare_swap [of "Value a" "Value b"]
    by (auto simp: cmpBuildSettings_def Let_def Compare_zero)
next
  fix a b c
  assume "cmpBuildSettings a b < 0" "cmpBuildSettings b c < 0"
  then show "cmpBuildSettings a c < 0"
    unfolding cmpBuildSettings_less by (metis Compare_trans)
next
  fix a b k
  assume le: "cmpBuildSettings a b \<le> 0"
  show "isKey b k < 0 \<Longrightarrow> isKey a k < 0"
    using le unfolding cmpBuildSettings_le isKey_def by (metis Compare_trans)
  show "0 < isKey a k \<Longrightarrow> 0 < isKey b k"
    using le bytes.cmp_swap unfolding cmpBuildSettings_le isKey_def by (metis Compare_trans)
qed

text \<open>The order of the settings as a linear order of the library.\<close>

instantiation build_setting :: linorder
begin

definition less_eq_build_setting :: "build_setting \<Rightarrow> build_setting \<Rightarrow> bool" where
  "less_eq_build_setting a b \<longleftrightarrow> cmpBuildSettings a b \<le> 0"

definition less_build_setting :: "build_setting \<Rightarrow> build_setting \<Rightarrow> bool" where
  "less_build_setting a b \<longleftrightarrow> cmpBuildSettings a b < 0"

instance
proof
  fix a b c :: build_setting
  show "a < b \<longleftrightarrow> a \<le> b \<and> \<not> b \<le> a"
    unfolding less_eq_build_setting_def less_build_setting_def
    using settings.cmp_swap [of a b] by linarith
  show "a \<le> a"
    unfolding less_eq_build_setting_def using settings.cmp_zero [of a a] by simp
  show "a \<le> b \<Longrightarrow> b \<le> c \<Longrightarrow> a \<le> c"
    unfolding less_eq_build_setting_def by (rule settings.cmp_le_trans)
  show "a \<le> b \<Longrightarrow> b \<le> a \<Longrightarrow> a = b"
    unfolding less_eq_build_setting_def by (rule settings.cmp_antisym)
  show "a \<le> b \<or> b \<le> a"
    unfolding less_eq_build_setting_def using settings.cmp_total by fastforce
qed

end

text \<open>
  The settings are sorted: whatever algorithm \<open>slices.SortFunc\<close> uses, the settings
  \<open>getBuildInfo\<close> keeps are the sorted arrangement of those the runtime reported, which is unique
  because the comparison only treats equal settings as equal.
\<close>

theorem getBuildInfo_sorted:
  assumes "getBuildInfo r = Some bi" "r = Some raw"
  shows "Settings bi = sort (Settings raw) \<and>
    (\<forall>ys. mset ys = mset (Settings raw) \<longrightarrow> sorted_wrt (\<lambda>a b. cmpBuildSettings a b \<le> 0) ys \<longrightarrow>
       ys = Settings bi)"
proof -
  have bi: "Settings bi = SortFunc cmpBuildSettings (Settings raw)"
    using assms by (auto simp: getBuildInfo_def)
  have uniq: "ys = Settings bi"
    if "mset ys = mset (Settings raw)" "sorted_wrt (\<lambda>a b. cmpBuildSettings a b \<le> 0) ys" for ys
    using that bi settings.mset_SortFunc settings.sorted_SortFunc
    by (metis settings.sorted_unique)
  have "sorted_wrt (\<lambda>a b. cmpBuildSettings a b \<le> 0) (sort (Settings raw))"
    using sorted_sort [of "Settings raw"]
    by (simp only: sorted_wrt_iff_nth_less less_eq_build_setting_def)
  with uniq show ?thesis by (metis mset_sort)
qed

theorem getBuildInfo_sorted_witness:
  "Settings (the (getBuildInfo (Some \<lparr>Main_Version = ''v1'',
      Settings = [BuildSetting ''vcs.time'' ''t'', BuildSetting ''vcs'' ''git'']\<rparr>)))
   = sort [BuildSetting ''vcs.time'' ''t'', BuildSetting ''vcs'' ''git'']"
  using getBuildInfo_sorted [of "Some \<lparr>Main_Version = ''v1'',
      Settings = [BuildSetting ''vcs.time'' ''t'', BuildSetting ''vcs'' ''git'']\<rparr>" _
      "\<lparr>Main_Version = ''v1'',
      Settings = [BuildSetting ''vcs.time'' ''t'', BuildSetting ''vcs'' ''git'']\<rparr>"]
  by (simp add: getBuildInfo_def)

text \<open>
  The lookup of a build setting is right on every input.  Without build information it
  is \<open>invalid\<close>; when no setting has the key it is \<open>unknown\<close>; otherwise it is the value of a
  setting with that key, the least one if there are several, in whatever order the runtime
  listed the settings.
\<close>

theorem getBuildInfoByKey_spec:
  "case r of
     None \<Rightarrow> getBuildInfoByKey r key = ''invalid''
   | Some bi \<Rightarrow>
       if \<exists>s \<in> set (Settings bi). Key s = key
       then \<exists>s \<in> set (Settings bi). Key s = key \<and> getBuildInfoByKey r key = Value s \<and>
              (\<forall>s' \<in> set (Settings bi). Key s' = key \<longrightarrow> Compare (Value s) (Value s') \<le> 0)
       else getBuildInfoByKey r key = ''unknown''"
proof (cases r)
  case None
  then show ?thesis by (simp add: getBuildInfoByKey_def getBuildInfo_def)
next
  case (Some bi)
  define xs where "xs = SortFunc cmpBuildSettings (Settings bi)"
  obtain i found where res: "BinarySearchFunc xs key isKey = (i, found)"
    by (cases "BinarySearchFunc xs key isKey")
  have val: "getBuildInfoByKey r key = (if found then Value (xs ! i) else ''unknown'')"
    using Some res by (simp add: getBuildInfoByKey_def getBuildInfo_def xs_def)
  have set: "set xs = set (Settings bi)" by (simp add: xs_def settings.set_SortFunc)
  note first = settings.BinarySearchFunc_first [OF _ res, unfolded isKey_def Compare_zero]
  have sorted: "sorted_wrt (\<lambda>a b. cmpBuildSettings a b \<le> 0) xs"
    by (simp add: xs_def settings.sorted_SortFunc)
  have least: "Compare (Value (xs ! i)) (Value s') \<le> 0"
    if "found" "s' \<in> set xs" "Key s' = key" for s'
    using first(2) [OF sorted that(1)] that cmpBuildSettings_le [of "xs ! i" s']
    by (auto simp: Compare_zero)
  show ?thesis
  proof (cases found)
    case True
    have "xs ! i \<in> set (Settings bi)" "Key (xs ! i) = key"
      using first(2) [OF sorted True] set nth_mem by auto
    with True Some val least set show ?thesis by auto
  next
    case False
    with Some val set first(1) [OF sorted] show ?thesis by simp
  qed
qed

theorem getBuildInfoByKey_spec_witness:
  "getBuildInfoByKey (Some \<lparr>Main_Version = ''v1'',
      Settings = [BuildSetting ''vcs.time'' ''t'', BuildSetting ''vcs'' ''git'']\<rparr>) ''vcs'' = ''git''"
  using getBuildInfoByKey_spec [of "Some \<lparr>Main_Version = ''v1'',
      Settings = [BuildSetting ''vcs.time'' ''t'', BuildSetting ''vcs'' ''git'']\<rparr>" "''vcs''"]
  by simp

text \<open>
  C36.  Where \<open>Short\<close> panics: exactly when no version was injected at build time and the binary
  has no build information.  The other two queries return a text in that case.
\<close>

theorem Short_panics_iff:
  "(\<exists>m. Short version r = Panic m) \<longleftrightarrow> version = [] \<and> r = None"
  by (auto simp: Short_def getBuildInfo_def split: option.splits)

end
