(* ===== verification/Supervisor_Acquire.thy ===== *)
theory Supervisor_Acquire
  imports Supervisor_Safety
begin

text \<open>
  Acquiring: what holds as long as clients only acquire, sessions timing out, which is what a pool of instances relies on; and that a
  creation in progress, which keeps the mutex from every other call, always comes to its end.
\<close>

section \<open>Only acquiring\<close>

text \<open>
  The steps that are left when clients create only with \<open>CreateIfFree\<close> and never delete.  Sessions
  may still time out.
\<close>

definition acquiring_only :: "label \<Rightarrow> bool" where
  "acquiring_only l \<longleftrightarrow> (case l of CreateBegin env ci f \<Rightarrow> f | DeleteCall fs pf sid \<Rightarrow> False | _ \<Rightarrow> True)"

abbreviation timeouts :: "supervisor \<Rightarrow> nat" where
  "timeouts s \<equiv> terminated_total TerminationReasonTimeout (metrics s)"

text \<open>The functions of contexts that have run, each of which can count at most one timeout.\<close>

definition after_funcs :: "label list \<Rightarrow> nat" where
  "after_funcs ls = length (filter (\<lambda>l. case l of AfterDone fs pf c \<Rightarrow> True | _ \<Rightarrow> False) ls)"

text \<open>What such steps keep, against the state they began in.\<close>

definition acquired :: "supervisor \<Rightarrow> supervisor \<Rightarrow> bool" where
  "acquired s t \<longleftrightarrow> timeouts s \<le> timeouts t \<and>
     all_terminated (metrics t) + timeouts s = all_terminated (metrics s) + timeouts t \<and>
     (timeouts t = timeouts s \<longrightarrow> sessions s \<noteq> [] \<longrightarrow> sessions t = sessions s)"

lemma acquired_same:
  assumes "acquired s t" "sessions u = sessions t" "timeouts u = timeouts t"
    "all_terminated (metrics u) = all_terminated (metrics t)"
  shows "acquired s u"
  using assms by (simp add: acquired_def)

lemma killExisting_none: "sessions s = [] \<Longrightarrow> killExisting s = s"
  by (simp add: killExisting_def map_keys_def)

lemma acquired_step:
  assumes "sup_inv t" "acquired s t" "step t l u" "acquiring_only l"
  shows "acquired s u \<and> timeouts u \<le> timeouts t + after_funcs [l]"
  using assms(3)
proof cases
  case (act ev)
  have "unlocked t u" using happen_unlocked act by simp
  then show ?thesis
    using other_calls_readings [of "metrics t" "metrics u"] acquired_same [OF assms(2), of u] by (auto simp: unlocked_def)
next
  case (create_begin env ci f)
  then have f: "f" using assms(4) by (simp add: acquiring_only_def)
  show ?thesis
  proof (cases rule: create_begin_cases [of t env ci f])
    case (probing p s1)
    have e: "sessions t = []" using probing(2) f by simp
    show ?thesis
      using create_begin_probing(9,10) [OF probing(4)] create_begin(2) probing(4) e acquired_same [OF assms(2), of u]
      by (simp add: killExisting_none)
  qed (use create_begin f assms(2) in \<open>auto simp: killExisting_none\<close>)
next
  case (create_end p w res t' n)
  have e: "sessions t = []" using assms(1) create_end(4) by (simp add: sup_inv_def table_inv_def)
  then show ?thesis
    using assms(2) unfolding create_end(2) by (cases res) (simp_all add: acquired_def)
next
  case (after c fs pf)
  then obtain k lg where k: "after_func (ctxs t ! c) = Some (k, lg)" by auto
  note e = after_done_eq [OF after(5) k refl, of fs pf]
  show ?thesis
  proof (cases "map_get (sessions t) k")
    case None
    then show ?thesis using acquired_same [OF assms(2), of u] by (simp add: after(2) e deleteWithReason_absent)
  next
    case (Some sess)
    then show ?thesis
      using assms(2) by (simp add: acquired_def after(1,2) e deleteWithReason_present [OF Some] after_funcs_def)
  qed
next
  case drain
  then show ?thesis using assms(2) by (simp add: acquired_def Drain_def)
next
  case (compute_begin parent)
  then show ?thesis using acquired_same [OF assms(2), of u] by (simp add: compute_begin_def Let_def)
next
  case (compute_end c w res t' n)
  then show ?thesis using acquired_same [OF assms(2), of u] by simp
qed (use assms(4) in \<open>simp_all add: acquiring_only_def\<close>)

lemma after_funcs_Cons: "after_funcs (l # ls) = after_funcs [l] + after_funcs ls"
  by (simp add: after_funcs_def)

lemma acquired_run:
  "run step t ls u \<Longrightarrow> sup_inv t \<Longrightarrow> acquired s t \<Longrightarrow> list_all acquiring_only ls \<Longrightarrow>
   acquired s u \<and> timeouts u \<le> timeouts t + after_funcs ls"
proof (induction rule: run.induct)
  case (run_Cons t l v ls u)
  have a: "acquired s v \<and> timeouts v \<le> timeouts t + after_funcs [l]"
    using run_Cons.hyps(1) run_Cons.prems by (intro acquired_step) simp_all
  moreover have "acquired s u \<and> timeouts u \<le> timeouts v + after_funcs ls"
    using run_Cons.IH sup_inv_step [OF run_Cons.prems(1) run_Cons.hyps(1)] a run_Cons.prems(3) by simp
  ultimately show ?case unfolding after_funcs_Cons [of l ls] by linarith
qed simp

text \<open>
  C11.  Acquiring is exclusive.  Whatever runs at the same time, as long as clients create only by
  acquiring and never delete, the only way a session ends is its timeout: every termination is one, and there
  are at most as many as functions of contexts have run.  As long as none is counted, a
  session that is there stays, and its context is not cancelled.  In all, the sessions
  created are one for each timeout, plus one if there is a session in the end and was none in the
  beginning, less one if it is the other way round: of all acquires on a free instance at most one
  succeeds until the session it gave has timed out.
\<close>

theorem acquire_exclusive:
  assumes "reach starts step s" and "run step s ls t" and "list_all acquiring_only ls"
  shows "timeouts s \<le> timeouts t \<and> timeouts t \<le> timeouts s + after_funcs ls \<and>
    all_terminated (metrics t) + timeouts s = all_terminated (metrics s) + timeouts t \<and>
    (timeouts t = timeouts s \<longrightarrow> sessions s \<noteq> [] \<longrightarrow> sessions t = sessions s \<and>
      (\<forall>k sess. map_get (sessions s) k = Some sess \<longrightarrow> ctx_err (ctxs t ! cancel sess) \<noteq> Some Canceled)) \<and>
    created_total (metrics t) + length (Sessions s) + timeouts s =
      created_total (metrics s) + length (Sessions t) + timeouts t \<and>
    length (Sessions t) \<le> 1"
proof -
  have inv: "sup_inv s" "sup_inv t"
    using sup.inv_reach [OF assms(1)] sup.inv_reach [OF reach_run [OF assms(1,2)]] by blast+
  have a: "acquired s t \<and> timeouts t \<le> timeouts s + after_funcs ls"
    by (rule acquired_run [OF assms(2) inv(1) _ assms(3)]) (simp add: acquired_def)
  have ci: "ctx_inv t" using inv(2) by (simp add: sup_inv_def)
  have "ctx_err (ctxs t ! cancel sess) \<noteq> Some Canceled"
    if "timeouts t = timeouts s" "map_get (sessions s) k = Some sess" for k sess
  proof -
    have "sessions s \<noteq> []" using that(2) by auto
    then have "owner t (cancel sess) k (logger sess)" using that a by (auto simp: owner_def acquired_def)
    from ctx_invD(3) [OF ci this] show ?thesis by auto
  qed
  moreover have "created_total (metrics u) = all_terminated (metrics u) + length (Sessions u) \<and> length (Sessions u) \<le> 1"
    if "sup_inv u" for u using that by (simp add: sup_inv_def table_inv_def Sessions_def map_keys_def)
  ultimately show ?thesis using a inv by (auto simp: acquired_def)
qed

section \<open>A creation in progress\<close>

text \<open>
  The world of a probe in which every attempt ends within its own timeout and no pause lasts
  longer than asked.
\<close>

definition prompt :: "(nat \<Rightarrow> attempt) \<Rightarrow> bool" where
  "prompt w \<longleftrightarrow> (\<forall>i. int (took (w i)) \<le> version_timeout \<and> overslept (w i) = 0)"

lemma creation_ends:
  assumes "mtx s = Some p" "\<not> crashed s" "prompt w"
  shows "\<exists>d t. run step s [Act (Tick d), CreateEnd w] t \<and> mtx t = None \<and> \<not> crashed t \<and>
    draining t = draining s \<and> now t \<le> max (now s) (p_start p + 3259375000) \<and> opts t = opts s"
proof -
  obtain res t n where v: "Version w (pending_deadline p s) (p_start p) = (res, t, n)"
    by (cases "Version w (pending_deadline p s) (p_start p)")
  have "pending_deadline p s \<le> p_start p + 2 * second" by (simp add: pending_deadline_def probe_deadline_def)
  then have t: "t \<le> p_start p + 3259375000"
    using Version_bounds [OF v] assms(3) by (auto simp: prompt_def)
  define d where "d = nat (t - now s)"
  define u where "u = happen (Tick d) s"
  have "step s (Act (Tick d)) u" unfolding u_def by (rule step.act [OF assms(2)])
  moreover have "step u (CreateEnd w) (snd (create_end p res u))"
    by (rule step.create_end [of u p w res t n]) (use assms v in \<open>simp_all add: u_def d_def pending_deadline_def\<close>)
  ultimately have "run step s [Act (Tick d), CreateEnd w] (snd (create_end p res u))"
    by (simp add: run_Cons_iff) blast
  moreover have "now u \<le> max (now s) (p_start p + 3259375000)" using t by (simp add: u_def d_def)
  ultimately show ?thesis
    by (intro exI [of _ d] exI [of _ "snd (create_end p res u)"]) (simp add: u_def assms(2))
qed

definition pending_inv :: "supervisor \<Rightarrow> bool" where
  "pending_inv s \<longleftrightarrow> (case mtx s of None \<Rightarrow> True | Some p \<Rightarrow> p_start p \<le> now s)"

lemma pending_inv_same: "pending_inv s \<Longrightarrow> mtx t = mtx s \<Longrightarrow> now s \<le> now t \<Longrightarrow> pending_inv t"
  by (auto simp: pending_inv_def split: option.splits)

lemma pending_inv_free: "mtx t = None \<Longrightarrow> pending_inv t"
  by (simp add: pending_inv_def)

lemma pending_inv_step:
  assumes "pending_inv s" "step s l t"
  shows "pending_inv t"
  using assms(2)
proof cases
  case (act ev)
  have "unlocked s t" using happen_unlocked act by simp
  then show ?thesis by (intro pending_inv_same [OF assms(1)]) (simp_all add: unlocked_def)
next
  case (create_begin env ci f)
  show ?thesis
  proof (cases rule: create_begin_cases [of s env ci f])
    case (probing p s1)
    then show ?thesis
      using create_begin_probing(6,14,16) [OF probing(4)] create_begin(2) by (simp add: pending_inv_def)
  qed (use create_begin assms(1) in \<open>simp_all add: pending_inv_free\<close>)
next
  case (after c fs pf)
  then show ?thesis by (intro pending_inv_free) simp
next
  case (compute_begin parent)
  then show ?thesis by (intro pending_inv_same [OF assms(1)]) (simp_all add: compute_begin_def Let_def)
next
  case (compute_end c w res t n)
  then show ?thesis by (intro pending_inv_same [OF assms(1)]) simp_all
qed (simp_all add: pending_inv_free Delete_def Drain_def)

interpretation pending: invariant_system starts step pending_inv
  by unfold_locales (auto simp: starts_def New_def intro: pending_inv_free pending_inv_step)

lemma creation_released:
  assumes "reach starts step s" "mtx s = Some p" "\<not> crashed s" "prompt w"
  shows "\<exists>d t. run step s [Act (Tick d), CreateEnd w] t \<and> mtx t = None \<and> \<not> crashed t \<and>
    draining t = draining s \<and> now t \<le> now s + 3259375000 \<and> opts t = opts s"
  using creation_ends [OF assms(2-4)] pending.inv_reach [OF assms(1)] assms(2) by (force simp: pending_inv_def)

text \<open>
  C19.  A creation always lets go of the supervisor.  From every reachable state in which a creation holds the
  mutex, whatever chromium answers to its probe, as long as each attempt respects its timeout, the creation
  can end within 3.26 seconds, and then any other call can run, draining for instance.
\<close>

theorem creation_finishes:
  assumes "reach starts step s" and "mtx s = Some p" and "\<not> crashed s" and "prompt w"
  shows "\<exists>d t. run step s [Act (Tick d), CreateEnd w, DrainCall] t \<and> draining t \<and> mtx t = None \<and>
    now t \<le> now s + 3259375000 \<and> length (Sessions t) \<le> 1"
proof -
  obtain d t where t: "run step s [Act (Tick d), CreateEnd w] t" "mtx t = None" "\<not> crashed t"
    "now t \<le> now s + 3259375000" using creation_released [OF assms] by blast
  have d: "run step t [DrainCall] (Drain t)" using step.drain [OF t(3,2)] by (simp add: run_Cons_iff)
  have r: "run step s [Act (Tick d), CreateEnd w, DrainCall] (Drain t)" using run_append [OF t(1) d] by simp
  then have "sup_inv (Drain t)" using sup.inv_reach [OF reach_run [OF assms(1)]] by blast
  then have "length (Sessions (Drain t)) \<le> 1" by (simp add: sup_inv_def table_inv_def Sessions_def map_keys_def)
  moreover have "draining (Drain t)" "mtx (Drain t) = None" "now (Drain t) = now t"
    using t(2) by (simp_all add: Drain_def)
  ultimately show ?thesis using r t(4) by (intro exI [of _ d] exI [of _ "Drain t"]) simp
qed

lemma prompt_answering: "prompt answering"
  by (simp add: prompt_def sample_world_def answered_def version_timeout_def)

lemma sample_pending:
  "\<exists>s p. run step sample_start [CreateBegin (sample_env answering) sample_check True] s \<and> mtx s = Some p \<and> \<not> crashed s \<and>
     reach starts step s \<and> sessions s = []"
proof -
  have b: "step sample_start (CreateBegin (sample_env answering) sample_check True)
      (snd (create_begin (sample_env answering) sample_check True sample_start))"
    by (rule step.create_begin) simp_all
  show ?thesis
  proof (cases rule: create_begin_cases [of sample_start "sample_env answering" sample_check True])
    case (probing p s1)
    have r: "run step sample_start [CreateBegin (sample_env answering) sample_check True] s1"
      using b probing(4) by (simp add: run_Cons_iff)
    then show ?thesis
      using reach_run [OF reach.reach_init [where init = starts and step = step, OF sample_starts] r]
        create_begin_probing(9,14,15) [OF probing(4)] by auto
  qed (simp_all add: sample_env_def randString_def)
qed

theorem creation_finishes_witness:
  "\<exists>s p d t. reach starts step s \<and> mtx s = Some p \<and> run step s [Act (Tick d), CreateEnd answering, DrainCall] t \<and> draining t"
  using sample_pending creation_finishes [OF _ _ _ prompt_answering] by blast

theorem acquire_exclusive_witness:
  "\<exists>d t. run step sample_start (CreateBegin (sample_env answering) sample_check True # [Act (Tick d), CreateEnd answering]) t \<and>
     timeouts t = 0 \<and> all_terminated (metrics t) = 0 \<and> created_total (metrics t) = length (Sessions t)"
proof -
  obtain s p where s: "run step sample_start [CreateBegin (sample_env answering) sample_check True] s" "mtx s = Some p"
    "\<not> crashed s" "reach starts step s" using sample_pending by blast
  obtain d t where t: "run step s [Act (Tick d), CreateEnd answering] t"
    using creation_released [OF s(4,2,3) prompt_answering] by blast
  have r: "run step sample_start (CreateBegin (sample_env answering) sample_check True # [Act (Tick d), CreateEnd answering]) t"
    using run_append [OF s(1) t] by simp
  have m: "metrics sample_start = []" by (simp add: sample_start_def New_def)
  show ?thesis
    using acquire_exclusive [OF reach.reach_init [where init = starts and step = step, OF sample_starts] r] r
    by (intro exI [of _ d] exI [of _ t]) (simp add: acquiring_only_def after_funcs_def m Sessions_def)
qed

end
