(* ===== verification/Main_Run.thy ===== *)
theory Main_Run
  imports Http_Api Build_Version Supervisor_Acquire
begin

text \<open>
  Model of \<open>cmd/crocochrome/main.go\<close>: the flags, the start of the program up to serving requests, and
  the state machine of its shutdown beside the supervisor.  Parsing of the command line, the
  HTTP server and the error group are the libraries'; the model keeps when the server stops
  and what \<open>run\<close> returns.
\<close>

section \<open>Starting\<close>

record Config =
  cfg_UserGroup :: int
  cfg_TempDir :: string
  cfg_EnableProcessMetrics :: bool

definition default_config :: Config where
  "default_config = \<lparr>cfg_UserGroup = 65534, cfg_TempDir = ''/chromium-tmp'', cfg_EnableProcessMetrics = False\<rparr>"

definition run_options :: "Config \<Rightarrow> nat \<Rightarrow> Options" where
  "run_options config registry =
     \<lparr>ChromiumPath = ''chromium'', ChromiumPort = [], SessionTimeout_opt = 0,
      UserGroup = cfg_UserGroup config, TempDir = cfg_TempDir config, Registry = Some registry,
      ExtraUATerms = ''GrafanaSyntheticMonitoring'', CgroupMemoryEventsPath = [],
      EnableProcessMetrics = cfg_EnableProcessMetrics config, ProcFSRoot = []\<rparr>"

text \<open>What the start of the program meets.\<close>

record 'r start_env =
  se_version :: string
  se_build :: "build_info option"
  se_files :: filesystem
  se_procfs :: procfs
  se_tmp :: string
  se_register :: "'r \<Rightarrow> collector \<Rightarrow> 'r option"
  se_registry :: 'r
  se_collector :: collector
  se_events :: "event list"
  se_world :: "nat \<Rightarrow> attempt"
  se_logger :: attrs
  se_now :: instant

definition new_supervisor :: "'r start_env \<Rightarrow> Config \<Rightarrow> supervisor" where
  "new_supervisor env config =
     New (se_files env) (se_procfs env) (se_tmp env) 0 (se_logger env) (run_options config 0) (se_now env)"

text \<open>\<open>run\<close> until it serves requests.\<close>

definition run_start :: "'r start_env \<Rightarrow> Config \<Rightarrow> (go_error + supervisor) outcome" where
  "run_start env config =
     (case Short (se_version env) (se_build env) of
        Panic m \<Rightarrow> Panic m
      | Return short \<Rightarrow>
          (case (if cfg_UserGroup config \<noteq> 0 then CheckCapabilities (se_procfs env) ''/proc'' else None) of
             Some err \<Rightarrow> Return (Inl err)
           | None \<Rightarrow>
               (case MustRegister_all (se_register env)
                       (AddVersionMetrics_collectors short (Commit (se_build env)) (Buildstamp (se_build env)) (se_collector env) @
                          Supervisor_collectors) (se_registry env) of
                  Panic m \<Rightarrow> Panic m
                | Return reg \<Rightarrow>
                    (case ComputeUserAgent (se_events env) None (se_world env) (new_supervisor env config) of
                       (Some err, s) \<Rightarrow> Return (Inl (Errorf ''could not compute user agent: %w'' [] (Some err)))
                     | (None, s) \<Rightarrow>
                         (case MustRegister_all (se_register env) InstrumentHTTP_collectors reg of
                            Panic m \<Rightarrow> Panic m
                          | Return reg' \<Rightarrow> Return (Inr s))))))"

section \<open>Running and shutting down\<close>

text \<open>
  The goroutine that shuts the program down: waiting for the context, waiting for the sessions
  (since when, until when), shutting the HTTP server down, done with the result of \<open>run\<close>.
\<close>

datatype shutdown = Serving | Waiting instant instant | Closing instant instant | Finished "go_error option"

record program =
  p_sup :: supervisor
  p_shutdown :: shutdown
  p_ctx_done :: bool
  p_listening :: bool
  p_server_err :: "go_error option"

definition graceTime :: "supervisor \<Rightarrow> duration" where
  "graceTime s = SessionTimeout s + 10 * second"

definition httpShutdownGraceTime :: duration where
  "httpShutdownGraceTime = 10 * second"

text \<open>The steps of the supervisor that requests, contexts and goroutines take.\<close>

definition serving_label :: "label \<Rightarrow> bool" where
  "serving_label l \<longleftrightarrow>
     (case l of DrainCall \<Rightarrow> False | ComputeBegin _ \<Rightarrow> False | ComputeEnd _ _ \<Rightarrow> False | _ \<Rightarrow> True)"

datatype plabel =
    Inner label | Signal | ServerFails go_error | StartDrain | Waited | GraceOver | ShutdownDone "go_error option"

text \<open>
  A signal or a server that fails cancels the context; the shutdown then drains the supervisor
  before it waits, waits for the sessions or the end of the grace time, and only then shuts the
  server down.  The result is the first error of the two goroutines.
\<close>

inductive pstep :: "program \<Rightarrow> plabel \<Rightarrow> program \<Rightarrow> bool" where
  inner: "(\<forall>e. p_shutdown p \<noteq> Finished e) \<Longrightarrow> serving_label l \<Longrightarrow> step (p_sup p) l s \<Longrightarrow>
    pstep p (Inner l) (p\<lparr>p_sup := s\<rparr>)"
| signal: "pstep p Signal (p\<lparr>p_ctx_done := True\<rparr>)"
| server_fails: "p_listening p \<Longrightarrow>
    pstep p (ServerFails err) (p\<lparr>p_listening := False, p_server_err := Some err, p_ctx_done := True\<rparr>)"
| start_drain: "p_shutdown p = Serving \<Longrightarrow> p_ctx_done p \<Longrightarrow> \<not> crashed (p_sup p) \<Longrightarrow> mtx (p_sup p) = None \<Longrightarrow>
    pstep p StartDrain
      (p\<lparr>p_sup := Drain (p_sup p),
         p_shutdown := Waiting (now (p_sup p)) (now (p_sup p) + graceTime (p_sup p))\<rparr>)"
| waited: "p_shutdown p = Waiting t d \<Longrightarrow> Wait_returns (p_sup p) \<Longrightarrow>
    pstep p Waited (p\<lparr>p_shutdown := Closing t (now (p_sup p) + httpShutdownGraceTime)\<rparr>)"
| grace_over: "p_shutdown p = Waiting t d \<Longrightarrow> d \<le> now (p_sup p) \<Longrightarrow>
    pstep p GraceOver (p\<lparr>p_shutdown := Closing t (now (p_sup p) + httpShutdownGraceTime)\<rparr>)"
| shutdown_done: "p_shutdown p = Closing t d \<Longrightarrow> (err = Some DeadlineExceeded \<longrightarrow> d \<le> now (p_sup p)) \<Longrightarrow>
    pstep p (ShutdownDone err)
      (p\<lparr>p_shutdown := Finished (case p_server_err p of Some e \<Rightarrow> Some e | None \<Rightarrow> err), p_listening := False\<rparr>)"

inductive_cases pstep_elims:
  "pstep p (Inner l) q" "pstep p StartDrain q" "pstep p Waited q" "pstep p GraceOver q"

definition program_of :: "supervisor \<Rightarrow> program" where
  "program_of s = \<lparr>p_sup = s, p_shutdown = Serving, p_ctx_done = False, p_listening = True, p_server_err = None\<rparr>"

definition pstarts :: "program \<Rightarrow> bool" where
  "pstarts p \<longleftrightarrow>
     (\<exists>(env :: collector list start_env) config s. run_start env config = Return (Inr s) \<and> \<not> crashed s \<and> p = program_of s)"

section \<open>The start is a run of the supervisor\<close>

lemma happen_not_cancelled:
  "c < length (ctxs s) \<Longrightarrow> ctx_err (ctxs s ! c) \<noteq> Some Canceled \<Longrightarrow> ctx_err (ctxs (happen ev s) ! c) \<noteq> Some Canceled"
  by (cases rule: happen_ctxs [of ev s]) (auto simp: nth_list_update)

lemma meanwhile_not_cancelled:
  "c < length (ctxs s) \<Longrightarrow> ctx_err (ctxs s ! c) \<noteq> Some Canceled \<Longrightarrow>
   ctx_err (ctxs (meanwhile evs s) ! c) \<noteq> Some Canceled"
proof (induction evs arbitrary: s)
  case (Cons ev evs)
  have "length (ctxs (happen ev s)) = length (ctxs s)" using bg.acts_ctxs(1) [of "[ev]" s] by simp
  then show ?case using Cons.IH [of "happen ev s"] happen_not_cancelled [OF Cons.prems] Cons.prems(1) by simp
qed simp

lemma compute_run_of:
  assumes "ComputeUserAgent evs None world s = (err, s')" "\<not> crashed s" "\<not> crashed s'"
  shows "\<exists>ls. run step s ls s'"
proof -
  define c where "c = length (ctxs s)"
  define s1 where "s1 = snd (compute_begin None s)"
  obtain res t n where v: "Version world (probe_deadline None (now s)) (now s) = (res, t, n)"
    by (cases "Version world (probe_deadline None (now s)) (now s)")
  define m where "m = meanwhile evs s1"
  define u where "u = m\<lparr>now := max t (now m)\<rparr>"
  have s': "s' = snd (compute_end c res u)"
    using assms(1) v by (simp add: ComputeUserAgent_def c_def compute_begin_def u_def m_def s1_def Let_def)
  have ok: "\<not> crashed m" using assms(3) by (simp add: s' u_def)
  have new: "length (ctxs s1) = Suc c" "ctxs s1 ! c = \<lparr>ctx_start = now s, deadline = None, ctx_err = None,
      after_func = None, after_ran = False\<rparr>"
    by (simp_all add: s1_def c_def compute_begin_def Let_def nth_append)
  have "ctx_le (ctxs s1 ! c) (ctxs m ! c)" unfolding m_def by (rule bg.acts_ctxs(2)) (simp add: new)
  then have cm: "ctx_start (ctxs m ! c) = now s" "deadline (ctxs m ! c) = None" "after_func (ctxs m ! c) = None"
    by (simp_all add: ctx_le_def new)
  have len: "c < length (ctxs m)" by (simp add: m_def bg.acts_ctxs(1) new)
  have nc: "ctx_err (ctxs m ! c) \<noteq> Some Canceled"
    unfolding m_def by (rule meanwhile_not_cancelled) (simp_all add: new)
  have "step s (ComputeBegin None) s1" unfolding s1_def by (rule step.compute_begin [OF assms(2)])
  moreover have "run step s1 (map Act evs) m" unfolding m_def by (rule meanwhile_run) (use ok in \<open>simp add: m_def\<close>)
  moreover have "step m (Act (Tick (nat (max t (now m) - now m)))) u"
    using step.act [OF ok, of "Tick (nat (max t (now m) - now m))"] by (simp add: u_def)
  moreover have "step u (ComputeEnd c world) s'"
    unfolding s'
    by (rule step.compute_end [of _ _ _ _ t n]) (use ok len nc v cm in \<open>simp_all add: u_def\<close>)
  ultimately have "run step s (ComputeBegin None # map Act evs @ [Act (Tick (nat (max t (now m) - now m))), ComputeEnd c world]) s'"
    by (intro run.run_Cons run_append) (auto simp: run_Cons_iff)
  then show ?thesis by blast
qed

lemma run_start_cases:
  assumes "run_start env config = Return (Inr s)"
  shows "ComputeUserAgent (se_events env) None (se_world env) (new_supervisor env config) = (None, s)"
    "cfg_UserGroup config \<noteq> 0 \<Longrightarrow> CheckCapabilities (se_procfs env) ''/proc'' = None"
  using assms
  by (auto simp: run_start_def split: outcome.splits option.splits prod.splits if_splits)

lemma new_supervisor_simps [simp]:
  "sessions (new_supervisor env config) = []" "draining (new_supervisor env config) = False"
  "crashed (new_supervisor env config) = False" "mtx (new_supervisor env config) = None"
  by (simp_all add: new_supervisor_def New_def)

lemma new_supervisor_options:
  "SessionTimeout_opt (opts (new_supervisor env config)) = 5 * minute"
  "ChromiumPath (opts (new_supervisor env config)) = ''chromium''"
  "ChromiumPort (opts (new_supervisor env config)) = ''5222''"
  "UserGroup (opts (new_supervisor env config)) = cfg_UserGroup config"
  "ExtraUATerms (opts (new_supervisor env config)) = ''GrafanaSyntheticMonitoring''"
  by (simp_all add: new_supervisor_def New_def withDefaults_eq Let_def run_options_def defaultChromiumPort_def
      defaultSessionTimeout_def)

lemma ComputeUserAgent_frame:
  assumes "ComputeUserAgent evs parent world s = (err, s')"
  shows "draining s' = draining s" "opts s' = opts s" "sessions s' = sessions s" "mtx s' = mtx s"
proof -
  have b: "draining (snd (compute_begin parent s)) = draining s" "opts (snd (compute_begin parent s)) = opts s"
    "sessions (snd (compute_begin parent s)) = sessions s" "mtx (snd (compute_begin parent s)) = mtx s"
    by (simp_all add: compute_begin_def Let_def)
  have "s' = snd (ComputeUserAgent evs parent world s)" by (simp add: assms)
  then show "draining s' = draining s" "opts s' = opts s" "sessions s' = sessions s" "mtx s' = mtx s"
    by (simp_all add: ComputeUserAgent_def case_prod_unfold Let_def bg.acts_frame b)
qed

lemma ComputeUserAgent_result:
  assumes "ComputeUserAgent evs None world s = (err, s')" "Version world (now s + 2 * second) (now s) = (res, t, n)"
  shows "(case res of
      Inl e \<Rightarrow> (\<exists>m. err = Some m \<and> errors_Is m DeadlineExceeded)
    | Inr vi \<Rightarrow> err = None \<and> userAgent s' = patch_user_agent (UserAgent vi) (ExtraUATerms (opts s)))"
proof -
  have "ExtraUATerms (opts (snd (compute_begin None s))) = ExtraUATerms (opts s)"
    by (simp add: compute_begin_def Let_def)
  then have "(err, s') = compute_end (length (ctxs s)) res
      ((meanwhile evs (snd (compute_begin None s)))\<lparr>now := max t (now (meanwhile evs (snd (compute_begin None s))))\<rparr>)"
    using assms by (simp add: ComputeUserAgent_def compute_begin_def probe_deadline_def Let_def)
  moreover have "res = Inl e \<Longrightarrow> errors_Is e DeadlineExceeded" for e
    using loop_result [OF assms(2) [unfolded Version_def]] by simp
  moreover have "opts (meanwhile evs (snd (compute_begin None s))) = opts s"
    by (simp add: bg.acts_frame compute_begin_def Let_def)
  ultimately show ?thesis by (cases res) (simp_all add: compute_end_def Let_def)
qed

lemma pstarts_reach:
  assumes "pstarts p"
  shows "reach starts step (p_sup p)" "\<not> draining (p_sup p)" "p_shutdown p = Serving"
    "SessionTimeout (p_sup p) = 5 * minute"
proof -
  obtain env :: "collector list start_env" and config s where r: "run_start env config = Return (Inr s)" "\<not> crashed s" "p = program_of s"
    using assms unfolding pstarts_def by blast
  note c = run_start_cases(1) [OF r(1)]
  have "starts (new_supervisor env config)" unfolding starts_def new_supervisor_def by blast
  then have "reach starts step (new_supervisor env config)" by (rule reach.reach_init)
  moreover obtain ls where "run step (new_supervisor env config) ls s"
    using compute_run_of [OF c _ r(2)] by auto
  ultimately show "reach starts step (p_sup p)" using r(3) reach_run by (auto simp: program_of_def)
  show "\<not> draining (p_sup p)" using ComputeUserAgent_frame(1) [OF c] r(3) by (simp add: program_of_def)
  show "p_shutdown p = Serving" by (simp add: r(3) program_of_def)
  show "SessionTimeout (p_sup p) = 5 * minute"
    using ComputeUserAgent_frame(2) [OF c] by (simp add: r(3) program_of_def SessionTimeout_def new_supervisor_options)
qed

section \<open>The invariant of the shutdown\<close>

text \<open>Every session's context ends at most the session timeout after the drain.\<close>

definition ends_by :: "instant \<Rightarrow> supervisor \<Rightarrow> bool" where
  "ends_by t s \<longleftrightarrow> (\<forall>c < length (ctxs s). after_func (ctxs s ! c) \<noteq> None \<longrightarrow>
     deadline (ctxs s ! c) \<noteq> None \<and> the (deadline (ctxs s ! c)) \<le> t + SessionTimeout s)"

definition draining_since :: "instant \<Rightarrow> supervisor \<Rightarrow> bool" where
  "draining_since t s \<longleftrightarrow> draining s \<and> t \<le> now s \<and> ends_by t s"

definition shutdown_inv :: "program \<Rightarrow> bool" where
  "shutdown_inv p \<longleftrightarrow> reach starts step (p_sup p) \<and> SessionTimeout (p_sup p) = 5 * minute \<and>
     (case p_shutdown p of
        Serving \<Rightarrow> \<not> draining (p_sup p)
      | Waiting t d \<Rightarrow> draining_since t (p_sup p) \<and> d = t + graceTime (p_sup p)
      | Closing t d \<Rightarrow> draining_since t (p_sup p) \<and>
          (Wait_returns (p_sup p) \<or> t + graceTime (p_sup p) \<le> now (p_sup p))
      | Finished e \<Rightarrow> draining (p_sup p))"

lemma drained_since: "drained s s' \<Longrightarrow> draining_since t s \<Longrightarrow> draining_since t s'"
proof -
  assume d: "drained s s'" and t: "draining_since t s"
  then have "SessionTimeout s' = SessionTimeout s" by (simp add: drained_def SessionTimeout_def)
  then show "draining_since t s'" using d t by (auto simp: drained_def draining_since_def ends_by_def)
qed

lemma drained_wait:
  assumes "drained s s'" "sup_inv s'" "Wait_returns s"
  shows "Wait_returns s'"
proof -
  have "0 \<le> wg s'" using assms(2) by (simp add: sup_inv_def launch_inv_def)
  then show ?thesis using assms(1,3) by (simp add: drained_def Wait_returns_def)
qed

lemma step_opts:
  assumes "step s l t"
  shows "opts t = opts s"
  using assms
proof cases
  case (create_begin env ci f)
  then show ?thesis by (cases rule: create_begin_cases [of s env ci f]) (auto simp: create_begin_probing)
qed (simp_all add: Delete_def Drain_def compute_begin_def Let_def del: happen.simps)

lemma step_timeout: "step s l t \<Longrightarrow> SessionTimeout t = SessionTimeout s"
  by (simp add: SessionTimeout_def step_opts)

lemma serving_not_draining:
  assumes "step s l t" "serving_label l" "\<not> draining s"
  shows "\<not> draining t"
  using assms(1)
proof cases
  case (act ev)
  then show ?thesis using happen_unlocked [of s ev] assms(3) by (simp add: unlocked_def)
next
  case (create_begin env ci f)
  then show ?thesis using assms(3)
    by (cases rule: create_begin_cases [of s env ci f]) (auto simp: create_begin_probing)
qed (use assms in \<open>simp_all add: serving_label_def Delete_def\<close>)

lemma drained_grace: "drained s s' \<Longrightarrow> graceTime s' = graceTime s"
  by (simp add: drained_def graceTime_def SessionTimeout_def)

lemma ends_by_now: "sup_inv s \<Longrightarrow> ends_by (now s) s"
  by (auto simp: ends_by_def sup_inv_def ctx_inv_def)

lemma Drain_since: "sup_inv s \<Longrightarrow> draining_since (now s) (Drain s)"
  using ends_by_now [of s] by (simp add: draining_since_def ends_by_def Drain_def SessionTimeout_def)

lemma shutdown_inv_starts: "pstarts p \<Longrightarrow> shutdown_inv p"
  by (simp add: shutdown_inv_def pstarts_reach)

lemma shutdown_inv_step:
  assumes "shutdown_inv p" "pstep p l q"
  shows "shutdown_inv q"
  using assms(2)
proof cases
  case (inner l s)
  have i: "sup_inv (p_sup p)" using assms(1) sup.inv_reach by (simp add: shutdown_inv_def)
  have r: "reach starts step s" "SessionTimeout s = 5 * minute"
    using assms(1) inner(5) reach.reach_step [of starts step] step_timeout [OF inner(5)] by (auto simp: shutdown_inv_def)
  have w: "drained (p_sup p) s" if "draining (p_sup p)" by (rule drained_step [OF i that inner(5)])
  show ?thesis
  proof (cases "p_shutdown p")
    case Serving
    then show ?thesis
      using assms(1) r serving_not_draining [OF inner(5,4)] inner(2) by (simp add: shutdown_inv_def)
  next
    case (Waiting t d)
    then have p: "draining_since t (p_sup p)" "d = t + graceTime (p_sup p)"
      using assms(1) by (simp_all add: shutdown_inv_def)
    then have d: "drained (p_sup p) s" using w by (simp add: draining_since_def)
    then show ?thesis
      using Waiting r inner(2) drained_since [OF d p(1)] drained_grace [OF d] p(2) by (simp add: shutdown_inv_def)
  next
    case (Closing t d)
    then have p: "draining_since t (p_sup p)"
      "Wait_returns (p_sup p) \<or> t + graceTime (p_sup p) \<le> now (p_sup p)"
      using assms(1) by (simp_all add: shutdown_inv_def)
    then have d: "drained (p_sup p) s" using w by (simp add: draining_since_def)
    have "now (p_sup p) \<le> now s" using d by (simp add: drained_def)
    then show ?thesis
      using Closing r inner(2) drained_since [OF d p(1)] drained_grace [OF d] p(2)
        drained_wait [OF d sup.inv_reach [OF r(1)]] by (auto simp: shutdown_inv_def)
  next
    case (Finished e)
    then show ?thesis using inner(3) by simp
  qed
next
  case start_drain
  have i: "sup_inv (p_sup p)" using assms(1) sup.inv_reach by (simp add: shutdown_inv_def)
  have "step (p_sup p) DrainCall (Drain (p_sup p))" by (rule step.drain [OF start_drain(5,6)])
  then have "reach starts step (Drain (p_sup p))"
    using assms(1) reach.reach_step [of starts step "p_sup p"] by (simp add: shutdown_inv_def)
  then show ?thesis
    using start_drain(2) Drain_since [OF i] assms(1) by (simp add: shutdown_inv_def graceTime_def SessionTimeout_def Drain_def)
next
  case (shutdown_done t d err)
  then show ?thesis using assms(1) by (auto simp: shutdown_inv_def draining_since_def)
qed (use assms(1) in \<open>(cases "p_shutdown p"; auto simp: shutdown_inv_def)+\<close>)

interpretation lifecycle: invariant_system pstarts pstep shutdown_inv
  by unfold_locales (auto intro: shutdown_inv_starts shutdown_inv_step)

section \<open>Starting\<close>

text \<open>
  C25.  Starting.  When the program starts to serve, its supervisor has no sessions, is not draining, has the
  options of the command line (chromium from the path, on port 5222, the session timeout of
  five minutes) and a computed user agent; with a user group it has the required capabilities.
  Without them, or when chromium does not answer the first probe, it does not start: the error
  is returned, and in the first case without anything having been launched or registered.
\<close>

theorem run_start_spec:
  assumes "Short (se_version env) (se_build env) = Return v"
  shows "(\<forall>s. run_start env config = Return (Inr s) \<longrightarrow>
      Sessions s = [] \<and> \<not> draining s \<and> SessionTimeout s = 5 * minute \<and> ChromiumPath (opts s) = ''chromium'' \<and>
      ChromiumPort (opts s) = ''5222'' \<and> UserGroup (opts s) = cfg_UserGroup config \<and>
      (\<exists>vi t n. Version (se_world env) (se_now env + 2 * second) (se_now env) = (Inr vi, t, n) \<and>
         userAgent s = patch_user_agent (UserAgent vi) ''GrafanaSyntheticMonitoring'') \<and>
      (cfg_UserGroup config \<noteq> 0 \<longrightarrow> CheckCapabilities (se_procfs env) ''/proc'' = None)) \<and>
    (\<forall>err. cfg_UserGroup config \<noteq> 0 \<longrightarrow> CheckCapabilities (se_procfs env) ''/proc'' = Some err \<longrightarrow>
      run_start env config = Return (Inl err)) \<and>
    (\<forall>err. run_start env config = Return (Inl err) \<longrightarrow>
      cfg_UserGroup config \<noteq> 0 \<and> CheckCapabilities (se_procfs env) ''/proc'' = Some err \<or>
      errors_Is err DeadlineExceeded)"
proof -
  obtain res t n where ver: "Version (se_world env) (se_now env + 2 * second) (se_now env) = (res, t, n)"
    by (cases "Version (se_world env) (se_now env + 2 * second) (se_now env)")
  have now: "now (new_supervisor env config) = se_now env" by (simp add: new_supervisor_def New_def)
  obtain err1 s1 where c: "ComputeUserAgent (se_events env) None (se_world env) (new_supervisor env config) = (err1, s1)"
    by (cases "ComputeUserAgent (se_events env) None (se_world env) (new_supervisor env config)")
  note r = ComputeUserAgent_result [OF c, unfolded now, OF ver]
  have started: "Sessions s = [] \<and> \<not> draining s \<and> SessionTimeout s = 5 * minute \<and> ChromiumPath (opts s) = ''chromium'' \<and>
      ChromiumPort (opts s) = ''5222'' \<and> UserGroup (opts s) = cfg_UserGroup config \<and>
      (\<exists>vi t n. Version (se_world env) (se_now env + 2 * second) (se_now env) = (Inr vi, t, n) \<and>
         userAgent s = patch_user_agent (UserAgent vi) ''GrafanaSyntheticMonitoring'')"
    if "run_start env config = Return (Inr s)" for s
  proof -
    have e: "err1 = None" "s1 = s" using run_start_cases(1) [OF that] c by simp_all
    then have "\<exists>vi. res = Inr vi" using r by (cases res) auto
    then show ?thesis
      using r e ver ComputeUserAgent_frame [OF c]
      by (auto simp: Sessions_def SessionTimeout_def new_supervisor_options)
  qed
  have failed: "cfg_UserGroup config \<noteq> 0 \<and> CheckCapabilities (se_procfs env) ''/proc'' = Some err \<or>
      errors_Is err DeadlineExceeded" if "run_start env config = Return (Inl err)" for err
    using that r c
    by (cases res) (auto simp: run_start_def split: outcome.splits option.splits if_splits)
  have "run_start env config = Return (Inl err)"
    if "cfg_UserGroup config \<noteq> 0" "CheckCapabilities (se_procfs env) ''/proc'' = Some err" for err
    by (simp add: run_start_def assms that)
  then show ?thesis using started failed run_start_cases(2) by blast
qed

definition sample_config :: Config where
  "sample_config = default_config\<lparr>cfg_UserGroup := 0\<rparr>"

definition sample_env0 :: "collector list start_env" where
  "sample_env0 =
     \<lparr>se_version = ''v1'', se_build = None, se_files = sample_fs ''/f'' [], se_procfs = sample_procfs, se_tmp = ''/tmp'',
      se_register = list_register, se_registry = [], se_collector = go_build_info, se_events = [],
      se_world = sample_world 0, se_logger = [], se_now = 0\<rparr>"

lemma sample_registered:
  "\<exists>reg reg'. MustRegister_all list_register
       (AddVersionMetrics_collectors short commit buildstamp go_build_info @ Supervisor_collectors) [] = Return reg \<and>
     MustRegister_all list_register InstrumentHTTP_collectors reg = Return reg'"
  by (simp add: AddVersionMetrics_collectors_def Supervisor_collectors_def InstrumentHTTP_collectors_def
      croco_metric_def list_register_def full_name_def go_build_info_def metricNs_def metricSubsystemCrocochrome_def)

lemma sample_run:
  "\<exists>s. run_start sample_env0 sample_config = Return (Inr s) \<and> \<not> crashed s \<and> now s = 1000000 \<and> mtx s = None"
proof -
  define s0 where "s0 = new_supervisor sample_env0 sample_config"
  have n: "now s0 = 0" by (simp add: s0_def new_supervisor_def New_def sample_env0_def)
  obtain err s where c: "ComputeUserAgent [] None (sample_world 0) s0 = (err, s)"
    by (cases "ComputeUserAgent [] None (sample_world 0) s0")
  have v: "Version (sample_world 0) (now s0 + 2 * second) (now s0) = (Inr sample_version, 1000000, 1)"
    using sample_probe [of 0] n by simp
  have "err = None" using ComputeUserAgent_result [OF c v] by simp
  moreover have "\<not> crashed s" "now s = 1000000"
  proof -
    have "s = snd (ComputeUserAgent [] None (sample_world 0) s0)" by (simp add: c)
    also have "\<dots> = snd (compute_end (length (ctxs s0)) (Inr sample_version) ((snd (compute_begin None s0))\<lparr>now := 1000000\<rparr>))"
      using v n by (simp add: ComputeUserAgent_def probe_deadline_def compute_begin_def Let_def)
    finally have s: "s = \<dots>" .
    show "\<not> crashed s" "now s = 1000000" by (simp_all add: s compute_begin_def Let_def s0_def)
  qed
  moreover have "mtx s = None" using ComputeUserAgent_frame(4) [OF c] by (simp add: s0_def)
  moreover obtain reg reg' where "MustRegister_all list_register
       (AddVersionMetrics_collectors ''v1'' (Commit None) (Buildstamp None) go_build_info @ Supervisor_collectors) [] = Return reg"
     "MustRegister_all list_register InstrumentHTTP_collectors reg = Return reg'" using sample_registered by blast
  ultimately have "run_start sample_env0 sample_config = Return (Inr s)"
    using c by (simp add: run_start_def sample_env0_def Short_def sample_config_def s0_def)
  then show ?thesis using \<open>\<not> crashed s\<close> \<open>now s = 1000000\<close> \<open>mtx s = None\<close> by blast
qed

theorem run_start_spec_witness:
  "\<exists>s. run_start sample_env0 sample_config = Return (Inr s) \<and> SessionTimeout s = 300 * second \<and>
     userAgent s = ''Mozilla/5.0 Chrome/124.0 GrafanaSyntheticMonitoring''"
proof -
  obtain s where s: "run_start sample_env0 sample_config = Return (Inr s)" using sample_run by blast
  have v: "Short (se_version sample_env0) (se_build sample_env0) = Return ''v1''"
    by (simp add: sample_env0_def Short_def)
  have "Index (UserAgent sample_version) ''Headless'' = Some 12" "\<not> Contains ''Chrome/124.0'' ''Headless''"
    by (simp_all add: sample_version_def Contains_def)
  then show ?thesis
    using run_start_spec [OF v, of sample_config] s sample_probe [of 0] patch_user_agent_first [of "UserAgent sample_version" 12]
    by (auto simp: sample_env0_def sample_version_def)
qed

section \<open>Shutting down\<close>

lemma wait_ended:
  "Wait_returns s \<Longrightarrow> launch_inv s \<Longrightarrow> l \<in> set (launches s) \<Longrightarrow> l_tracked l \<Longrightarrow> l_phase l = Ended"
  by (auto simp: Wait_returns_def launch_inv_def counted_def [abs_def] filter_empty_conv)

text \<open>
  C7.  The order of the shutdown.  In every state the running program reaches: once the shutdown has begun,
  every creation is refused without a change, while sessions can still be deleted; and the
  HTTP server is shut down only after every session goroutine has ended, or after 310 seconds, the session timeout and ten
  more, have passed since draining began.
\<close>

theorem shutdown_order:
  assumes "reach pstarts pstep p" and "p_shutdown p \<noteq> Serving"
  shows "create env ci f (p_sup p) = (Return (Inl ErrDraining), p_sup p) \<and>
    (\<forall>t d. p_shutdown p = Closing t d \<longrightarrow>
       (\<forall>l \<in> set (launches (p_sup p)). l_tracked l \<longrightarrow> l_phase l = Ended) \<or>
       t + 310 * second \<le> now (p_sup p))"
proof -
  have inv: "shutdown_inv p" by (rule lifecycle.inv_reach [OF assms(1)])
  then have "draining (p_sup p)" using assms(2) by (cases "p_shutdown p") (auto simp: shutdown_inv_def draining_since_def)
  moreover have "launch_inv (p_sup p)" using inv sup.inv_reach by (simp add: shutdown_inv_def sup_inv_def)
  ultimately show ?thesis
    using inv by (auto simp: shutdown_inv_def graceTime_def create_def create_begin_def dest: wait_ended)
qed

text \<open>
  C8.  The grace time is enough.  If the grace time is over while the program still waits, then the deadline of every
  session goroutine's context passed at least ten seconds ago: no session was cut short
  by the shutdown, and each had ten seconds to tear down its browser.
\<close>

theorem grace_sufficient:
  assumes "reach pstarts pstep p" and "pstep p GraceOver q" and "l \<in> set (launches (p_sup p))" and "l_tracked l"
  shows "\<exists>d. deadline (ctxs (p_sup p) ! l_ctx l) = Some d \<and> d + 10 * second \<le> now (p_sup p)"
  using assms(2)
proof cases
  case (grace_over t d)
  have "shutdown_inv p" by (rule lifecycle.inv_reach [OF assms(1)])
  then have e: "ends_by t (p_sup p)" "d = t + graceTime (p_sup p)" "launch_inv (p_sup p)"
    using grace_over(2) sup.inv_reach by (simp_all add: shutdown_inv_def draining_since_def sup_inv_def)
  have "l_ctx l < length (ctxs (p_sup p))" "after_func (ctxs (p_sup p) ! l_ctx l) \<noteq> None"
    using e(3) assms(3,4) by (auto simp: launch_inv_def)
  then show ?thesis using e grace_over(3) by (auto simp: ends_by_def graceTime_def)
qed

text \<open>A program in which a session is created, then a signal comes, and nothing ends.\<close>

lemma inner_run:
  assumes "run step s ls t" "list_all serving_label ls" "\<forall>e. p_shutdown p \<noteq> Finished e" "p_sup p = s"
  shows "run pstep p (map Inner ls) (p\<lparr>p_sup := t\<rparr>)"
  using assms
proof (induction arbitrary: p rule: run.induct)
  case (run_Cons s l t ls u)
  then have "pstep p (Inner l) (p\<lparr>p_sup := t\<rparr>)" by (intro pstep.inner) simp_all
  moreover have "run pstep (p\<lparr>p_sup := t\<rparr>) (map Inner ls) (p\<lparr>p_sup := u\<rparr>)"
    using run_Cons.IH [of "p\<lparr>p_sup := t\<rparr>"] run_Cons.prems by simp
  ultimately show ?case by (auto intro: run.run_Cons)
qed (auto intro: run.run_Nil)

lemma sample_waiting:
  "\<exists>p l. reach pstarts pstep p \<and> p_shutdown p = Waiting 2000000 (2000000 + 310 * second) \<and>
     now (p_sup p) = 2000000 \<and> \<not> crashed (p_sup p) \<and> p_ctx_done p \<and> l \<in> set (launches (p_sup p)) \<and> l_tracked l \<and>
     mtx (p_sup p) = None"
proof -
  obtain s where s: "run_start sample_env0 sample_config = Return (Inr s)" "\<not> crashed s" "now s = 1000000" "mtx s = None"
    using sample_run by blast
  have c: "ComputeUserAgent [] None (sample_world 0) (new_supervisor sample_env0 sample_config) = (None, s)"
    using run_start_cases(1) [OF s(1)] by (simp add: sample_env0_def)
  have st: "SessionTimeout s = 300 * second"
    using ComputeUserAgent_frame(2) [OF c] by (simp add: SessionTimeout_def new_supervisor_options)
  obtain t l where t: "run step s creation t" "\<not> crashed t" "mtx t = None" "opts t = opts s" "now t = 2000000"
    "l \<in> set (launches t)" "l_tracked l"
  proof -
    have "\<not> draining s" "2 * second \<le> SessionTimeout s" using st ComputeUserAgent_frame(1) [OF c] by simp_all
    from creation_run [OF s(2,4) this] obtain t l where "run step s creation t" "\<not> crashed t" "mtx t = None"
      "opts t = opts s" "now t = now s + 1000000" "launches t = launches s @ [l]" "l_tracked l" by blast
    then show thesis using that [of t l] s(3) by simp
  qed
  define p where "p = (program_of s)\<lparr>p_sup := t\<rparr>"
  have r: "reach pstarts pstep (program_of s)"
    using s(1,2) by (intro reach.reach_init) (auto simp: pstarts_def)
  have "run pstep (program_of s) (map Inner creation) p"
    unfolding p_def by (rule inner_run [OF t(1)]) (simp_all add: program_of_def creation_def serving_label_def)
  then have "reach pstarts pstep p" by (rule reach_run [OF r])
  then have "reach pstarts pstep (p\<lparr>p_ctx_done := True\<rparr>)" by (rule reach.reach_step) (rule pstep.signal)
  moreover define q where "q = p\<lparr>p_ctx_done := True, p_sup := Drain t, p_shutdown := Waiting 2000000 (2000000 + 310 * second)\<rparr>"
  have "pstep (p\<lparr>p_ctx_done := True\<rparr>) StartDrain q"
    using pstep.start_drain [of "p\<lparr>p_ctx_done := True\<rparr>"] t(2-5) st
    by (simp add: p_def q_def program_of_def graceTime_def SessionTimeout_def)
  ultimately have "reach pstarts pstep q" by (rule reach.reach_step)
  then show ?thesis
    using t(2,3,5-7) by (intro exI [of _ q] exI [of _ l]) (simp add: q_def Drain_def)
qed

theorem shutdown_order_witness:
  "\<exists>p. reach pstarts pstep p \<and> p_shutdown p = Waiting 2000000 (2000000 + 310 * second) \<and>
     create (sample_env answering) sample_check False (p_sup p) = (Return (Inl ErrDraining), p_sup p)"
proof -
  obtain p where p: "reach pstarts pstep p" "p_shutdown p = Waiting 2000000 (2000000 + 310 * second)"
    using sample_waiting by blast
  then show ?thesis using shutdown_order [OF p(1)] by auto
qed

text \<open>The same program when the grace time is over.\<close>

theorem grace_sufficient_witness:
  "\<exists>p q l d. reach pstarts pstep p \<and> pstep p GraceOver q \<and> l \<in> set (launches (p_sup p)) \<and> l_tracked l \<and>
     deadline (ctxs (p_sup p) ! l_ctx l) = Some d \<and> d + 10 * second \<le> now (p_sup p)"
proof -
  obtain p l where p: "reach pstarts pstep p" "p_shutdown p = Waiting 2000000 (2000000 + 310 * second)"
    "now (p_sup p) = 2000000" "\<not> crashed (p_sup p)" "l \<in> set (launches (p_sup p))" "l_tracked l"
    using sample_waiting by blast
  define u where "u = p\<lparr>p_sup := happen (Tick 310000000000) (p_sup p)\<rparr>"
  have "pstep p (Inner (Act (Tick 310000000000))) u"
    unfolding u_def using p(2) by (intro pstep.inner step.act [OF p(4)]) (simp_all add: serving_label_def)
  with p(1) have r: "reach pstarts pstep u" by (rule reach.reach_step)
  obtain q where q: "pstep u GraceOver q" using pstep.grace_over [of u] p(2,3,4) by (simp add: u_def)
  have l: "l \<in> set (launches (p_sup u))" using p(4,5) by (simp add: u_def)
  from grace_sufficient [OF r q l p(6)] obtain d where
    "deadline (ctxs (p_sup u) ! l_ctx l) = Some d \<and> d + 10 * second \<le> now (p_sup u)" ..
  with r q l p(6) show ?thesis by metis
qed

section \<open>The shutdown ends\<close>

lemma closing_finishes:
  assumes "p_shutdown p = Closing t d"
  shows "\<exists>q. run pstep p [ShutdownDone None] q \<and> p_shutdown q = Finished (p_server_err p) \<and> p_sup q = p_sup p"
  using pstep.shutdown_done [OF assms, of None] by (auto simp: run_Cons_iff split: option.splits)

lemma waiting_finishes:
  assumes "p_shutdown p = Waiting t d" "\<not> crashed (p_sup p)"
  shows "\<exists>ls q. run pstep p ls q \<and> p_shutdown q = Finished (p_server_err p) \<and> now (p_sup q) = max d (now (p_sup p))"
proof -
  define u where "u = p\<lparr>p_sup := happen (Tick (nat (d - now (p_sup p)))) (p_sup p)\<rparr>"
  have "pstep p (Inner (Act (Tick (nat (d - now (p_sup p)))))) u"
    unfolding u_def using assms(1) by (intro pstep.inner step.act [OF assms(2)]) (simp_all add: serving_label_def)
  moreover define v where "v = u\<lparr>p_shutdown := Closing t (now (p_sup u) + httpShutdownGraceTime)\<rparr>"
  have n: "now (p_sup u) = max d (now (p_sup p))" using assms(2) by (simp add: u_def)
  have "pstep u GraceOver v"
    unfolding v_def by (rule pstep.grace_over [of _ _ d]) (use assms n in \<open>simp_all add: u_def\<close>)
  moreover obtain q where "run pstep v [ShutdownDone None] q" "p_shutdown q = Finished (p_server_err v)" "p_sup q = p_sup v"
    using closing_finishes [of v] by (auto simp: v_def)
  ultimately have "run pstep p [Inner (Act (Tick (nat (d - now (p_sup p))))), GraceOver, ShutdownDone None] q \<and>
    p_shutdown q = Finished (p_server_err p) \<and> now (p_sup q) = max d (now (p_sup p))"
    using n by (auto simp: run_Cons_iff v_def u_def)
  then show ?thesis by blast
qed

lemma serving_finishes:
  assumes "p_shutdown p = Serving" "p_ctx_done p" "\<not> crashed (p_sup p)" "mtx (p_sup p) = None"
  shows "\<exists>ls q. run pstep p ls q \<and> p_shutdown q = Finished (p_server_err p) \<and>
    now (p_sup q) = max (now (p_sup p) + graceTime (p_sup p)) (now (p_sup p))"
proof -
  define u where "u = p\<lparr>p_sup := Drain (p_sup p), p_shutdown := Waiting (now (p_sup p)) (now (p_sup p) + graceTime (p_sup p))\<rparr>"
  have s: "pstep p StartDrain u" unfolding u_def by (rule pstep.start_drain [OF assms])
  have u: "\<not> crashed (p_sup u)" "now (p_sup u) = now (p_sup p)" "p_server_err u = p_server_err p"
    using assms(3) by (simp_all add: u_def Drain_def)
  obtain ls q where q: "run pstep u ls q" "p_shutdown q = Finished (p_server_err p)"
    "now (p_sup q) = max (now (p_sup p) + graceTime (p_sup p)) (now (p_sup p))"
    using waiting_finishes [OF _ u(1), unfolded u(2,3)] by (auto simp: u_def)
  have "run pstep p (StartDrain # ls) q" using s q(1) by (rule run.run_Cons)
  then show ?thesis using q(2,3) by blast
qed

lemma program_creation_released:
  assumes "reach starts step (p_sup p)" "mtx (p_sup p) = Some c" "\<not> crashed (p_sup p)" "prompt w" "p_shutdown p = Serving"
  shows "\<exists>ls s. run pstep p ls (p\<lparr>p_sup := s\<rparr>) \<and> mtx s = None \<and> \<not> crashed s \<and> now s \<le> now (p_sup p) + 3259375000 \<and>
    graceTime s = graceTime (p_sup p)"
proof -
  obtain d s where s: "run step (p_sup p) [Act (Tick d), CreateEnd w] s" "mtx s = None" "\<not> crashed s"
    "now s \<le> now (p_sup p) + 3259375000" "opts s = opts (p_sup p)"
    using creation_released [OF assms(1-4)] by blast
  obtain u where u: "step (p_sup p) (Act (Tick d)) u" "step u (CreateEnd w) s" using s(1) by (auto simp: run_Cons_iff)
  have n: "\<forall>e. p_shutdown p \<noteq> Finished e" "\<forall>e. p_shutdown (p\<lparr>p_sup := u\<rparr>) \<noteq> Finished e"
    using assms(5) by simp_all
  have l: "serving_label (Act (Tick d))" "serving_label (CreateEnd w)" by (simp_all add: serving_label_def)
  have "step (p_sup (p\<lparr>p_sup := u\<rparr>)) (CreateEnd w) s" using u(2) by simp
  from pstep.inner [OF n(1) l(1) u(1)] pstep.inner [OF n(2) l(2) this]
  have "run pstep p [Inner (Act (Tick d)), Inner (CreateEnd w)] (p\<lparr>p_sup := s\<rparr>)"
    by (auto simp: run_Cons_iff)
  then show ?thesis using s by (intro exI [of _ "[Inner (Act (Tick d)), Inner (CreateEnd w)]"] exI [of _ s]) (simp add: graceTime_def SessionTimeout_def)
qed

lemma program_finishes:
  assumes "reach pstarts pstep p" and "p_ctx_done p" and "\<not> crashed (p_sup p)" and "prompt w"
  shows "\<exists>ls q e. run pstep p ls q \<and> p_shutdown q = Finished e \<and>
    now (p_sup q) \<le> now (p_sup p) + 310 * second + (if mtx (p_sup p) = None then 0 else 3259375000) \<and>
    ((\<forall>e. p_shutdown p \<noteq> Finished e) \<longrightarrow> e = p_server_err p)"
proof -
  have inv: "shutdown_inv p" by (rule lifecycle.inv_reach [OF assms(1)])
  then have g: "graceTime (p_sup p) = 310 * second" by (simp add: shutdown_inv_def graceTime_def)
  show ?thesis
  proof (cases "p_shutdown p")
    case Serving
    show ?thesis
    proof (cases "mtx (p_sup p)")
      case None
      from serving_finishes [OF Serving assms(2,3) None] g show ?thesis using None by force
    next
      case (Some c)
      have "reach starts step (p_sup p)" using inv by (simp add: shutdown_inv_def)
      then obtain ls s where s: "run pstep p ls (p\<lparr>p_sup := s\<rparr>)" "mtx s = None" "\<not> crashed s"
        "now s \<le> now (p_sup p) + 3259375000" "graceTime s = graceTime (p_sup p)"
        using program_creation_released [OF _ Some assms(3,4) Serving] by blast
      obtain ms q where q: "run pstep (p\<lparr>p_sup := s\<rparr>) ms q" "p_shutdown q = Finished (p_server_err p)"
        "now (p_sup q) = max (now s + graceTime s) (now s)"
        using serving_finishes [of "p\<lparr>p_sup := s\<rparr>"] Serving assms(2) s(2,3) by auto
      have "now (p_sup q) \<le> now (p_sup p) + 310 * second + (if mtx (p_sup p) = None then 0 else 3259375000)"
        using q(3) s(4,5) g Some by simp
      with run_append [OF s(1) q(1)] q(2) show ?thesis by blast
    qed
  next
    case (Waiting t d)
    then have "d \<le> now (p_sup p) + 310 * second" using inv g by (simp add: shutdown_inv_def draining_since_def)
    then show ?thesis using waiting_finishes [OF Waiting assms(3)] by force
  next
    case (Closing t d)
    then show ?thesis using closing_finishes [OF Closing] by force
  next
    case (Finished e)
    then show ?thesis using run.run_Nil [of pstep p] by (intro exI [of _ "[]"] exI [of _ p] exI [of _ e]) simp
  qed
qed

text \<open>
  The shutdown cannot get stuck.  From every reachable state in which the context is done, whatever the sessions and
  their browsers do or fail to do and whatever chromium answers to a creation that is
  probing it, the program can end, with the error of the HTTP server if there was one, within 310
  seconds and the 3.26 seconds such a creation can make the drain wait.
\<close>

theorem shutdown_finishes:
  assumes "reach pstarts pstep p" and "p_ctx_done p" and "\<not> crashed (p_sup p)" and "prompt w"
  shows "\<exists>ls q e. run pstep p ls q \<and> p_shutdown q = Finished e \<and>
    now (p_sup q) \<le> now (p_sup p) + 310 * second + (if mtx (p_sup p) = None then 0 else 3259375000) \<and>
    ((\<forall>e. p_shutdown p \<noteq> Finished e) \<longrightarrow> e = p_server_err p)"
  by (rule program_finishes [OF assms])

theorem shutdown_finishes_witness:
  "\<exists>p ls q. reach pstarts pstep p \<and> p_shutdown p = Waiting 2000000 (2000000 + 310 * second) \<and>
     run pstep p ls q \<and> now (p_sup q) \<le> 2000000 + 310 * second \<and> p_shutdown q = Finished (p_server_err p)"
proof -
  obtain p where p: "reach pstarts pstep p" "p_shutdown p = Waiting 2000000 (2000000 + 310 * second)"
    "now (p_sup p) = 2000000" "\<not> crashed (p_sup p)" "p_ctx_done p" "mtx (p_sup p) = None" using sample_waiting by blast
  obtain ls q e where "run pstep p ls q" "p_shutdown q = Finished e" "now (p_sup q) \<le> 2000000 + 310 * second"
    "(\<forall>e. p_shutdown p \<noteq> Finished e) \<longrightarrow> e = p_server_err p"
    using shutdown_finishes [OF p(1,5,4) prompt_answering] unfolding p(3,6) by auto
  moreover have "\<forall>e. p_shutdown p \<noteq> Finished e" by (simp add: p(2))
  ultimately have "run pstep p ls q" "now (p_sup q) \<le> 2000000 + 310 * second" "p_shutdown q = Finished (p_server_err p)"
    by simp_all
  then show ?thesis using p(1,2) by blast
qed

end
