(* ===== verification/Main_Flags.thy ===== *)
theory Main_Flags
  imports Main_Run
begin

text \<open>
  The rest of \<open>cmd/crocochrome/main.go\<close>: the three flags, read from the arguments as the package \<open>flag\<close>
  does, and the exit status of the program.  What \<open>run\<close> returns for a configuration is an argument.
\<close>

section \<open>Values\<close>

text \<open>Integers as in Go source: a base prefix, and underscores between digits.\<close>

definition digit_of :: "char \<Rightarrow> nat option" where
  "digit_of c =
     (if is_digit c then Some (byte_of c - 48)
      else if between 97 c 122 then Some (byte_of c - 87)
      else if between 65 c 90 then Some (byte_of c - 55)
      else None)"

abbreviation underscore :: char where "underscore \<equiv> CHR ''_''"

fun parse_base :: "nat \<Rightarrow> nat \<Rightarrow> nat \<Rightarrow> string \<Rightarrow> go_error + nat" where
  "parse_base b mx n [] = Inr n"
| "parse_base b mx n (c # s) =
     (if c = underscore then parse_base b mx n s
      else (case digit_of c of
              None \<Rightarrow> Inl ErrSyntax
            | Some d \<Rightarrow>
                if b \<le> d then Inl ErrSyntax
                else if mx < n * b + d then Inl ErrRange
                else parse_base b mx (n * b + d) s))"

definition base_prefix :: "string \<Rightarrow> nat \<times> string" where
  "base_prefix s =
     (if s = [] \<or> hd s \<noteq> CHR ''0'' then (10, s)
      else if 3 \<le> length s \<and> s ! 1 \<in> set ''bB'' then (2, drop 2 s)
      else if 3 \<le> length s \<and> s ! 1 \<in> set ''oO'' then (8, drop 2 s)
      else if 3 \<le> length s \<and> s ! 1 \<in> set ''xX'' then (16, drop 2 s)
      else (8, tl s))"

text \<open>Whether each underscore is between digits, or between a prefix and a digit.\<close>

datatype saw = Beginning | Digit | Underscore | Other

fun underscores_from :: "bool \<Rightarrow> saw \<Rightarrow> string \<Rightarrow> bool" where
  "underscores_from hex seen [] = (seen \<noteq> Underscore)"
| "underscores_from hex seen (c # s) =
     (if is_digit c \<or> hex \<and> is_hexit c then underscores_from hex Digit s
      else if c = underscore then seen = Digit \<and> underscores_from hex Underscore s
      else seen \<noteq> Underscore \<and> underscores_from hex Other s)"

definition underscoreOK :: "string \<Rightarrow> bool" where
  "underscoreOK s =
     (if 2 \<le> length s \<and> hd s = CHR ''0'' \<and> s ! 1 \<in> set ''bBoOxX''
      then underscores_from (s ! 1 \<in> set ''xX'') Digit (drop 2 s)
      else underscores_from False Beginning s)"

definition ParseUint0 :: "string \<Rightarrow> go_error + 64 word" where
  "ParseUint0 s =
     (if s = [] then Inl ErrSyntax
      else (case base_prefix s of
              (b, t) \<Rightarrow>
                (case parse_base b max_uint64 0 t of
                   Inl e \<Rightarrow> Inl e
                 | Inr n \<Rightarrow> if underscore \<in> set t \<and> \<not> underscoreOK s then Inl ErrSyntax else Inr (of_nat n))))"

definition ParseInt0 :: "string \<Rightarrow> go_error + int" where
  "ParseInt0 s = signed_parse ParseUint0 s"

definition ParseBool :: "string \<Rightarrow> bool option" where
  "ParseBool s =
     (if s \<in> {''1'', ''t'', ''T'', ''true'', ''TRUE'', ''True''} then Some True
      else if s \<in> {''0'', ''f'', ''F'', ''false'', ''FALSE'', ''False''} then Some False
      else None)"

section \<open>The command line\<close>

text \<open>The value of a flag stored, or an error.\<close>

definition set_flag :: "string \<Rightarrow> string \<Rightarrow> Config \<Rightarrow> Config option" where
  "set_flag name val config =
     (if name = ''temp-dir'' then Some (config\<lparr>cfg_TempDir := val\<rparr>)
      else if name = ''user-group'' then
        (case ParseInt0 val of Inl e \<Rightarrow> None | Inr n \<Rightarrow> Some (config\<lparr>cfg_UserGroup := n\<rparr>))
      else if name = ''process-metrics'' then
        map_option (\<lambda>b. config\<lparr>cfg_EnableProcessMetrics := b\<rparr>) (ParseBool val)
      else None)"

text \<open>The name of a flag, and its value after an equals sign.\<close>

definition split_flag :: "string \<Rightarrow> string \<times> string option" where
  "split_flag s =
     (hd s # takeWhile (\<lambda>c. c \<noteq> CHR ''='') (tl s),
      (case dropWhile (\<lambda>c. c \<noteq> CHR ''='') (tl s) of [] \<Rightarrow> None | c # v \<Rightarrow> Some v))"

datatype parsed = Parsed Config | ExitStatus nat

fun flag_parse :: "string list \<Rightarrow> Config \<Rightarrow> parsed" where
  "flag_parse [] config = Parsed config"
| "flag_parse (s # args) config =
     (if length s < 2 \<or> hd s \<noteq> CHR ''-'' \<or> s = ''--'' then Parsed config
      else (let body = (if s ! 1 = CHR ''-'' then drop 2 s else tl s)
            in if body = [] \<or> hd body \<in> set ''-='' then ExitStatus 2
               else (case split_flag body of
                       (name, val) \<Rightarrow>
                         if name \<notin> {''temp-dir'', ''user-group'', ''process-metrics''}
                         then ExitStatus (if name \<in> {''help'', ''h''} then 0 else 2)
                         else if name = ''process-metrics'' \<or> val \<noteq> None
                         then (case set_flag name (case val of None \<Rightarrow> ''true'' | Some v \<Rightarrow> v) config of
                                 None \<Rightarrow> ExitStatus 2 | Some c \<Rightarrow> flag_parse args c)
                         else (case args of
                                 [] \<Rightarrow> ExitStatus 2
                               | v # rest \<Rightarrow>
                                   (case set_flag name v config of
                                      None \<Rightarrow> ExitStatus 2 | Some c \<Rightarrow> flag_parse rest c)))))"

declare flag_parse.simps(2) [simp del]

text \<open>
  What \<open>run\<close> returns for a configuration: the error or the panic of the start, the result of the
  shutdown, or the panic of a goroutine.
\<close>

inductive run_returns :: "collector list start_env \<Rightarrow> Config \<Rightarrow> go_error option outcome \<Rightarrow> bool" for env config where
  start_panics: "run_start env config = Panic m \<Longrightarrow> run_returns env config (Panic m)"
| start_fails: "run_start env config = Return (Inl err) \<Longrightarrow> run_returns env config (Return (Some err))"
| finished: "run_start env config = Return (Inr s) \<Longrightarrow> \<not> crashed s \<Longrightarrow> run pstep (program_of s) ls q \<Longrightarrow>
    p_shutdown q = Finished r \<Longrightarrow> run_returns env config (Return r)"
| crashed: "run_start env config = Return (Inr s) \<Longrightarrow> run pstep (program_of s) ls q \<Longrightarrow> crashed (p_sup q) \<Longrightarrow>
    run_returns env config (Panic ''goroutine'')"

definition exit_status :: "go_error option outcome \<Rightarrow> nat" where
  "exit_status r = (case r of Return None \<Rightarrow> 0 | Return (Some err) \<Rightarrow> 1 | Panic m \<Rightarrow> 2)"

text \<open>The status the program exits with.\<close>

inductive main_exits :: "collector list start_env \<Rightarrow> string list \<Rightarrow> nat \<Rightarrow> bool" for env args where
  not_run: "flag_parse args default_config = ExitStatus n \<Longrightarrow> main_exits env args n"
| ran: "flag_parse args default_config = Parsed config \<Longrightarrow> run_returns env config r \<Longrightarrow>
    main_exits env args (exit_status r)"

inductive_simps main_exits_simps: "main_exits env args n"

section \<open>Reading what was written\<close>

lemma parse_base_digits: "\<forall>c \<in> set s. is_digit c \<Longrightarrow> parse_base 10 mx n s = parse_loop mx n s"
proof (induction s arbitrary: n)
  case (Cons c s)
  have "is_digit c" using Cons.prems by simp
  then have "c \<noteq> underscore" "digit_of c = Some (digit_val c)" "digit_val c < 10"
    by (auto simp: digit_of_def digit_val_def is_digit_def)
  then show ?case using Cons by simp
qed simp

lemma dec_head: "0 < n \<Longrightarrow> hd (dec n) \<noteq> CHR ''0''"
proof (induction n rule: dec.induct)
  case (1 n)
  show ?case
  proof (cases "n < 10")
    case True
    then have "n \<in> {1, 2, 3, 4, 5, 6, 7, 8, 9}" using "1.prems" by auto
    then show ?thesis by (subst dec.simps) (auto simp: char_of_def bit_iff_odd)
  next
    case False
    then show ?thesis using "1.IH" by (subst dec.simps) simp
  qed
qed

lemma ParseUint0_dec: "n \<le> max_uint64 \<Longrightarrow> ParseUint0 (dec n) = Inr (of_nat n)"
proof -
  assume n: "n \<le> max_uint64"
  show ?thesis
  proof (cases "n = 0")
    case True
    have "dec 0 = ''0''" by (subst dec.simps) (simp add: char_of_def bit_iff_odd)
    then show ?thesis using True by (simp add: ParseUint0_def base_prefix_def)
  next
    case False
    have "\<forall>c \<in> set (dec n). is_digit c" using dec_digits by blast
    moreover have "underscore \<notin> set (dec n)" using dec_digits [of underscore n] by (auto simp: is_digit_def)
    ultimately show ?thesis
      using dec_head [of n] False n by (simp add: ParseUint0_def base_prefix_def parse_base_digits parse_loop_dec)
  qed
qed

lemma ParseInt0_Itoa: "- (2 ^ 63) < i \<Longrightarrow> i < 2 ^ 63 \<Longrightarrow> ParseInt0 (Itoa i) = Inr i"
  unfolding ParseInt0_def by (rule signed_parse_Itoa) (simp_all add: ParseUint0_dec)

text \<open>One flag at the front of the arguments.\<close>

lemma flag_joined:
  assumes "dash \<in> {''-'', ''--''}" "name \<in> {''temp-dir'', ''user-group'', ''process-metrics''}"
    and "set_flag name v config = Some c"
  shows "flag_parse ((dash @ name @ CHR ''='' # v) # args) config = flag_parse args c"
  using assms by (auto simp: flag_parse.simps(2) [of "x # y" for x y] split_flag_def)

lemma flag_apart:
  assumes "dash \<in> {''-'', ''--''}" "name \<in> {''temp-dir'', ''user-group''}"
    and "set_flag name v config = Some c"
  shows "flag_parse ((dash @ name) # v # args) config = flag_parse args c"
  using assms by (auto simp: flag_parse.simps(2) [of "x # y" for x y] split_flag_def)

lemma flag_alone:
  assumes "dash \<in> {''-'', ''--''}"
  shows "flag_parse ((dash @ ''process-metrics'') # args) config =
    flag_parse args (config\<lparr>cfg_EnableProcessMetrics := True\<rparr>)"
  using assms by (auto simp: flag_parse.simps(2) [of "x # y" for x y] split_flag_def set_flag_def ParseBool_def)

lemma command_line:
  assumes "- (2 ^ 63) < cfg_UserGroup c" and "cfg_UserGroup c < 2 ^ 63" and "dash \<in> {''-'', ''--''}"
    and "args \<in> {[dash @ ''temp-dir'' @ CHR ''='' # cfg_TempDir c,
             dash @ ''user-group'' @ CHR ''='' # Itoa (cfg_UserGroup c),
             dash @ ''process-metrics'' @ CHR ''='' # (if cfg_EnableProcessMetrics c then ''true'' else ''false'')],
          [dash @ ''user-group'', Itoa (cfg_UserGroup c), dash @ ''temp-dir'', cfg_TempDir c] @
             (if cfg_EnableProcessMetrics c then [dash @ ''process-metrics''] else [])}"
  shows "flag_parse args default_config = Parsed c"
proof -
  note f = flag_joined [OF assms(3)] flag_apart [OF assms(3)] flag_alone [OF assms(3)]
  have pb: "ParseBool ''true'' = Some True" "ParseBool ''false'' = Some False" by (simp_all add: ParseBool_def)
  have s: "set_flag ''temp-dir'' (cfg_TempDir c) k = Some (k\<lparr>cfg_TempDir := cfg_TempDir c\<rparr>)"
    "set_flag ''user-group'' (Itoa (cfg_UserGroup c)) k = Some (k\<lparr>cfg_UserGroup := cfg_UserGroup c\<rparr>)" for k
    using ParseInt0_Itoa [OF assms(1,2)] by (simp_all add: set_flag_def)
  have s3: "set_flag ''process-metrics'' (if cfg_EnableProcessMetrics c then ''true'' else ''false'') k =
       Some (k\<lparr>cfg_EnableProcessMetrics := cfg_EnableProcessMetrics c\<rparr>)" for k
    by (cases "cfg_EnableProcessMetrics c") (simp_all only: set_flag_def pb if_True if_False option.map, simp_all)
  show ?thesis
    using assms(4)
  proof (elim insertE emptyE)
    assume "args = [dash @ ''temp-dir'' @ CHR ''='' # cfg_TempDir c,
             dash @ ''user-group'' @ CHR ''='' # Itoa (cfg_UserGroup c),
             dash @ ''process-metrics'' @ CHR ''='' # (if cfg_EnableProcessMetrics c then ''true'' else ''false'')]"
    then show ?thesis by (simp add: f(1) [OF _ s(1)] f(1) [OF _ s(2)] f(1) [OF _ s3] del: append.simps)
  next
    assume "args = [dash @ ''user-group'', Itoa (cfg_UserGroup c), dash @ ''temp-dir'', cfg_TempDir c] @
             (if cfg_EnableProcessMetrics c then [dash @ ''process-metrics''] else [])"
    then show ?thesis
      by (cases "cfg_EnableProcessMetrics c")
        (simp_all add: f(2) [OF _ s(1)] f(2) [OF _ s(2)] f(3), simp_all add: default_config_def)
  qed
qed

text \<open>
  C38.  The command line.  The program runs with exactly the configuration its arguments spell out, with one dash or two,
  with the values after an equals sign or as arguments of their own, and exits with the status of what \<open>run\<close>
  returns for that configuration, and with no other.
\<close>

theorem main_flags:
  assumes "- (2 ^ 63) < cfg_UserGroup c" and "cfg_UserGroup c < 2 ^ 63" and "dash \<in> {''-'', ''--''}"
    and "args \<in> {[dash @ ''temp-dir'' @ CHR ''='' # cfg_TempDir c,
             dash @ ''user-group'' @ CHR ''='' # Itoa (cfg_UserGroup c),
             dash @ ''process-metrics'' @ CHR ''='' # (if cfg_EnableProcessMetrics c then ''true'' else ''false'')],
          [dash @ ''user-group'', Itoa (cfg_UserGroup c), dash @ ''temp-dir'', cfg_TempDir c] @
             (if cfg_EnableProcessMetrics c then [dash @ ''process-metrics''] else [])}"
  shows "main_exits env args n \<longleftrightarrow> (\<exists>r. run_returns env c r \<and> n = exit_status r)"
  unfolding main_exits_simps using command_line [OF assms] by auto

theorem main_flags_witness:
  "\<forall>n. main_exits sample_env0 [''--user-group'', Itoa (- 7), ''--temp-dir'', ''/t=1'', ''--process-metrics''] n \<longleftrightarrow>
     (\<exists>r. run_returns sample_env0 \<lparr>cfg_UserGroup = - 7, cfg_TempDir = ''/t=1'', cfg_EnableProcessMetrics = True\<rparr> r \<and>
       n = exit_status r)"
  by (intro allI main_flags [where dash = "''--''"]) simp_all

text \<open>A run that is not started exits with 0 for help and with 2 otherwise.\<close>

lemma flag_parse_exit: "flag_parse args config = ExitStatus n \<Longrightarrow> n \<in> {0, 2}"
proof (induction args config rule: flag_parse.induct)
  case (2 s args config)
  define body where "body = (if s ! 1 = CHR ''-'' then drop 2 s else tl s)"
  obtain name val where nv: "split_flag body = (name, val)" by (cases "split_flag body")
  show ?case
  proof (rule ccontr)
    assume n: "n \<notin> {0, 2}"
    have e: "flag_parse (s # args) config =
       (if length s < 2 \<or> hd s \<noteq> CHR ''-'' \<or> s = ''--'' then Parsed config
        else if body = [] \<or> hd body \<in> set ''-='' then ExitStatus 2
        else if name \<notin> {''temp-dir'', ''user-group'', ''process-metrics''}
        then ExitStatus (if name \<in> {''help'', ''h''} then 0 else 2)
        else if name = ''process-metrics'' \<or> val \<noteq> None
        then (case set_flag name (case val of None \<Rightarrow> ''true'' | Some v \<Rightarrow> v) config of
                None \<Rightarrow> ExitStatus 2 | Some c \<Rightarrow> flag_parse args c)
        else (case args of
                [] \<Rightarrow> ExitStatus 2
              | v # rest \<Rightarrow> (case set_flag name v config of None \<Rightarrow> ExitStatus 2 | Some c \<Rightarrow> flag_parse rest c)))"
      unfolding flag_parse.simps(2) Let_def body_def [symmetric] nv prod.case ..
    have s1: "\<not> (length s < 2 \<or> hd s \<noteq> CHR ''-'' \<or> s = ''--'')"
    proof
      assume A: "length s < 2 \<or> hd s \<noteq> CHR ''-'' \<or> s = ''--''"
      show False using "2.prems" unfolding e if_P [OF A] by simp
    qed
    have s2: "\<not> (body = [] \<or> hd body \<in> set ''-='')"
    proof
      assume A: "body = [] \<or> hd body \<in> set ''-=''"
      show False using "2.prems" n unfolding e if_not_P [OF s1] if_P [OF A] by simp
    qed
    have s3: "\<not> (name \<notin> {''temp-dir'', ''user-group'', ''process-metrics''})"
    proof
      assume A: "name \<notin> {''temp-dir'', ''user-group'', ''process-metrics''}"
      show False using "2.prems" n unfolding e if_not_P [OF s1] if_not_P [OF s2] if_P [OF A] by (simp split: if_splits)
    qed
    note s = s1 s2 s3
    have IH: "flag_parse args c = ExitStatus n \<Longrightarrow> False"
      if "name = ''process-metrics'' \<or> val \<noteq> None"
        "set_flag name (case val of None \<Rightarrow> ''true'' | Some v \<Rightarrow> v) config = Some c" for c
      using "2.IH"(1) [OF s(1) body_def s(2) nv [symmetric] s(3) that] n by simp
    have IH2: "flag_parse rest c = ExitStatus n \<Longrightarrow> False"
      if "\<not> (name = ''process-metrics'' \<or> val \<noteq> None)" "args = v # rest" "set_flag name v config = Some c" for v rest c
      using "2.IH"(2) [OF s(1) body_def s(2) nv [symmetric] s(3) that] n by simp
    show False
      using "2.prems" n IH IH2 unfolding e if_not_P [OF s(1)] if_not_P [OF s(2)] if_not_P [OF s(3)]
      by (auto split: if_splits option.splits list.splits)
  qed
qed simp

lemma main_not_run: "flag_parse args default_config = ExitStatus k \<Longrightarrow> main_exits env args n \<Longrightarrow> n \<in> {0, 2}"
  using flag_parse_exit [of args default_config k] by (auto simp: main_exits_simps)

text \<open>
  C20.  A signal ends the program with status 0.  Once the program has started, with the configuration its
  arguments spell out, a signal leads, by whatever path it serves until then, to an exit with status 0
  within 310 seconds, and 3.26 seconds more when a creation is probing chromium.
\<close>

theorem signal_exits_zero:
  assumes "flag_parse args default_config = Parsed c" and "run_start env c = Return (Inr s)" and "\<not> crashed s"
    and "run pstep (program_of s) ls p" and "p_shutdown p = Serving" and "p_server_err p = None"
    and "\<not> crashed (p_sup p)" and "prompt w"
  shows "\<exists>ms q. run pstep p (Signal # ms) q \<and> p_shutdown q = Finished None \<and>
    now (p_sup q) \<le> now (p_sup p) + 310 * second + (if mtx (p_sup p) = None then 0 else 3259375000) \<and>
    main_exits env args 0"
proof -
  define u where "u = p\<lparr>p_ctx_done := True\<rparr>"
  have s: "pstep p Signal u" unfolding u_def by (rule pstep.signal)
  have "pstarts (program_of s)" using assms(2,3) by (auto simp: pstarts_def)
  then have "reach pstarts pstep p" using reach_run [OF reach.reach_init assms(4)] by blast
  then have r: "reach pstarts pstep u" using s by (rule reach.reach_step)
  obtain ms q e where q: "run pstep u ms q" "p_shutdown q = Finished e"
    "now (p_sup q) \<le> now (p_sup u) + 310 * second + (if mtx (p_sup u) = None then 0 else 3259375000)"
    "(\<forall>e. p_shutdown u \<noteq> Finished e) \<longrightarrow> e = p_server_err u"
    using program_finishes [OF r _ _ assms(8)] assms(7) by (auto simp: u_def)
  have e: "e = None" using q(4) assms(5,6) by (simp add: u_def)
  have run: "run pstep p (Signal # ms) q" using s q(1) by (rule run.run_Cons)
  have "run_returns env c (Return None)"
    using run_returns.finished [OF assms(2,3) run_append [OF assms(4) run] q(2)] by (simp add: e)
  then have "main_exits env args 0"
    using main_exits.ran [OF assms(1), of env "Return None"] by (simp add: exit_status_def)
  then show ?thesis using run q(2,3) e by (intro exI [of _ ms] exI [of _ q]) (simp add: u_def)
qed

theorem signal_exits_zero_witness:
  "main_exits sample_env0 [''-user-group'', Itoa 0, ''-temp-dir'', ''/chromium-tmp''] 0"
proof -
  obtain s where s: "run_start sample_env0 sample_config = Return (Inr s)" "\<not> crashed s" using sample_run by blast
  have "flag_parse [''-user-group'', Itoa 0, ''-temp-dir'', ''/chromium-tmp''] default_config = Parsed sample_config"
    by (rule command_line [where dash = "''-''"]) (simp_all add: sample_config_def default_config_def)
  from signal_exits_zero [OF this s run.run_Nil _ _ _ prompt_answering] s(2) show ?thesis
    by (auto simp: program_of_def)
qed

end
