(* ===== verification/Instrumented.thy ===== *)
theory Instrumented
  imports Http_Api
begin

text \<open>
  The API as \<open>main.go\<close> mounts it: behind the router of the program and the instrumentation that
  \<open>InstrumentHTTP\<close> of \<open>internal/metrics/metrics.go\<close> composes.  The two wrappers of \<open>promhttp\<close> are
  parameters; what is relied on is that each passes the request on once, and counts it, with
  the label the program's function gives for the request's context, unless the handler panics.
\<close>

section \<open>Handlers with a context\<close>

text \<open>The values of the labels \<open>code\<close>, \<open>method\<close> and \<open>route\<close>.\<close>

type_synonym series = "string \<times> string \<times> string"

record served =
  sv_sup :: supervisor
  sv_requests :: "series list"
  sv_durations :: "series list"

type_synonym call = "api_env \<times> request"

text \<open>A handler is given the value the context holds under \<open>routeCtxKey\<close>, if any.\<close>

type_synonym handler = "string option \<Rightarrow> call \<Rightarrow> served \<Rightarrow> answer \<times> served"

type_synonym wrapper = "(string option \<Rightarrow> string) \<Rightarrow> handler \<Rightarrow> handler"

definition routeLabel :: "string option \<Rightarrow> string" where
  "routeLabel v = (case v of Some r \<Rightarrow> r | None \<Rightarrow> ''unknown'')"

definition InstrumentHTTP :: "wrapper \<Rightarrow> wrapper \<Rightarrow> handler \<Rightarrow> (request \<Rightarrow> string) \<Rightarrow> handler" where
  "InstrumentHTTP counter duration handler route =
     (let instrumented = duration routeLabel (counter routeLabel handler)
      in (\<lambda>ctx c. instrumented (Some (route (snd c))) c))"

definition api_handler :: "attrs \<Rightarrow> handler" where
  "api_handler lg ctx c st =
     (let (a, lgs, s) = ServeHTTP lg (fst c) (snd c) (sv_sup st) in (a, st\<lparr>sv_sup := s\<rparr>))"

text \<open>The router of the program: the metrics, and everything else for the API.\<close>

datatype main_endpoint = MetricsH | ApiH

definition main_routes :: "(string \<times> main_endpoint) list" where
  "main_routes = [(''/metrics'', MetricsH), (''/'', ApiH)]"

definition main_router :: "main_endpoint router" where
  "main_router = (case register_all main_routes [] of Return rt \<Rightarrow> rt | Panic _ \<Rightarrow> [])"

definition main_route :: "request \<Rightarrow> main_endpoint route" where
  "main_route r = find_handler main_router (Method r) (EscPath r)"

definition reaches_api :: "request \<Rightarrow> bool" where
  "reaches_api r \<longleftrightarrow> (case main_route r of Handler ApiH _ \<Rightarrow> True | _ \<Rightarrow> False)"

definition main_handler :: "(request \<Rightarrow> answer) \<Rightarrow> handler \<Rightarrow> handler" where
  "main_handler expose api ctx c st =
     (case main_route (snd c) of
        Handler MetricsH _ \<Rightarrow> (expose (snd c), st)
      | Handler ApiH _ \<Rightarrow> api ctx c st
      | NotAllowed \<Rightarrow> (http_error 405 ''Method Not Allowed'', st)
      | NotFound \<Rightarrow> (http_error 404 ''404 page not found'', st)
      | RedirectTo q \<Rightarrow> (Redirected q, st)
      | BadTarget \<Rightarrow> (Answer 400 None NoBody, st))"

fun serve_calls :: "handler \<Rightarrow> call list \<Rightarrow> served \<Rightarrow> answer list \<times> served" where
  "serve_calls h [] st = ([], st)"
| "serve_calls h (c # cs) st =
     (let (a, st1) = h None c st; (as, st2) = serve_calls h cs st1 in (a # as, st2))"

text \<open>The calls that reach the API and are not aborted there, in a run of a handler.\<close>

fun completed :: "handler \<Rightarrow> call list \<Rightarrow> served \<Rightarrow> string list" where
  "completed h [] st = []"
| "completed h (c # cs) st =
     (let (a, st1) = h None c st
      in (if reaches_api (snd c) \<and> a \<noteq> Aborted
          then [UrlPath (snd c)] else []) @ completed h cs st1)"

definition route_of :: "series \<Rightarrow> string" where
  "route_of x = snd (snd x)"

section \<open>The router of the program\<close>

lemma main_routes_register:
  "register_all main_routes [] = Return
     [(\<lparr>pat_method = [], pat_segs = [Lit ''metrics'']\<rparr>, MetricsH), (\<lparr>pat_method = [], pat_segs = [Rest]\<rparr>, ApiH)]"
  by (simp add: main_routes_def Handle_def parse_pattern_def parse_path_def parse_segment_def conflicts_def
      compare_methods_def compare_paths_def combine_def)

text \<open>The metrics are served under any spelling of their path, the API under every other one.\<close>

lemma main_route_closed:
  "main_route r =
     (if EscPath r = ''*'' then BadTarget
      else if Method r \<noteq> ''CONNECT'' \<and> cleanPath (EscPath r) \<noteq> EscPath r then RedirectTo (cleanPath (EscPath r))
      else if segments (EscPath r) = [''metrics''] then Handler MetricsH []
      else if segments (EscPath r) \<noteq> [] then Handler ApiH []
      else NotFound)"
proof -
  have m: "method_child m main_router = (if m = [] then [([Lit ''metrics''], \<lparr>pat_method = [], pat_segs = [Lit ''metrics'']\<rparr>, MetricsH),
      ([Rest], \<lparr>pat_method = [], pat_segs = [Rest]\<rparr>, ApiH)] else [])" for m
    by (simp add: main_router_def main_routes_register)
  obtain ss where ss: "segments (EscPath r) = ss" by blast
  have "match_method main_router k ss = (if ss = [''metrics''] then Some ((\<lparr>pat_method = [], pat_segs = [Lit ''metrics'']\<rparr>, MetricsH), [])
      else if ss \<noteq> [] then Some ((\<lparr>pat_method = [], pat_segs = [Rest]\<rparr>, ApiH), []) else None)" for k ss
    by (cases ss; cases "tl ss") (auto simp: match_method_def m find_child_def)
  moreover have "allowed_methods main_router ss = []" for ss
    by (simp add: allowed_methods_def filter_empty_conv m)
  ultimately show ?thesis by (simp add: main_route_def find_handler_def ss wild_names_def)
qed

lemma main_route_plain:
  assumes "es \<noteq> []" "list_all plain_segment es" "EscPath r = abs_path es"
  shows "main_route r = (if es = [''metrics''] then Handler MetricsH [] else Handler ApiH [])"
proof -
  have es: "list_all plain_elem es" "list_all (\<lambda>e. CHR ''%'' \<notin> set e) es"
    using assms(2) by (simp_all add: list_all_iff plain_segment_def)
  have "abs_path es \<noteq> ''*''" by (simp add: abs_path_def)
  then show ?thesis
    using assms(1) cleanPath_plain [OF assms(1) es(1)] segments_abs_path [OF assms(1) es]
    by (simp add: main_route_closed assms(3))
qed

section \<open>Instrumentation\<close>

text \<open>What the documentation of \<open>promhttp\<close> says of its two wrappers.\<close>

definition counts_requests :: "wrapper \<Rightarrow> bool" where
  "counts_requests w \<longleftrightarrow> (\<forall>label h ctx c st. \<exists>code m.
     w label h ctx c st = (case h ctx c st of (a, st') \<Rightarrow>
       (a, if a = Aborted then st' else st'\<lparr>sv_requests := sv_requests st' @ [(code, m, label ctx)]\<rparr>)))"

definition counts_durations :: "wrapper \<Rightarrow> bool" where
  "counts_durations w \<longleftrightarrow> (\<forall>label h ctx c st. \<exists>code m.
     w label h ctx c st = (case h ctx c st of (a, st') \<Rightarrow>
       (a, if a = Aborted then st' else st'\<lparr>sv_durations := sv_durations st' @ [(code, m, label ctx)]\<rparr>)))"

text \<open>The same state but for what has been counted.\<close>

lemma instrumented_call:
  assumes "counts_requests counter" "counts_durations duration" "sv_sup st = sv_sup u"
    and "main_handler expose (InstrumentHTTP counter duration (api_handler lg) (\<lambda>r. Route (UrlPath r))) ctx c st = (a, st')"
    and "main_handler expose (api_handler lg) ctx c u = (b, u')"
  shows "a = b \<and> sv_sup st' = sv_sup u' \<and>
    map route_of (sv_requests st') = map route_of (sv_requests st) @
      map Route (completed (main_handler expose (api_handler lg)) [c] u) \<and>
    map route_of (sv_durations st') = map route_of (sv_durations st) @
      map Route (completed (main_handler expose (api_handler lg)) [c] u)"
proof -
  obtain x lgs s where x: "ServeHTTP lg (fst c) (snd c) (sv_sup u) = (x, lgs, s)"
    by (cases "ServeHTTP lg (fst c) (snd c) (sv_sup u)")
  let ?r = "Some (Route (UrlPath (snd c)))"
  obtain c1 m1 where 1: "counter routeLabel (api_handler lg) ?r c st =
      (case api_handler lg ?r c st of (a, st') \<Rightarrow>
       (a, if a = Aborted then st' else st'\<lparr>sv_requests := sv_requests st' @ [(c1, m1, routeLabel ?r)]\<rparr>))"
    using assms(1) unfolding counts_requests_def by blast
  obtain c2 m2 where 2: "duration routeLabel (counter routeLabel (api_handler lg)) ?r c st =
      (case counter routeLabel (api_handler lg) ?r c st of (a, st') \<Rightarrow>
       (a, if a = Aborted then st' else st'\<lparr>sv_durations := sv_durations st' @ [(c2, m2, routeLabel ?r)]\<rparr>))"
    using assms(2) unfolding counts_durations_def by blast
  show ?thesis
    using assms(3-5) x
    by (auto simp: main_handler_def reaches_api_def InstrumentHTTP_def 1 2 api_handler_def routeLabel_def route_of_def Let_def
        split: if_splits route.splits main_endpoint.splits)
qed

lemma instrumented_calls:
  assumes "counts_requests counter" "counts_durations duration"
    and "h = main_handler expose (InstrumentHTTP counter duration (api_handler lg) (\<lambda>r. Route (UrlPath r)))"
    and "g = main_handler expose (api_handler lg)"
    and "sv_sup st = sv_sup u" "serve_calls h cs st = (as, st')" "serve_calls g cs u = (bs, u')"
  shows "as = bs \<and> sv_sup st' = sv_sup u' \<and>
    map route_of (sv_requests st') = map route_of (sv_requests st) @ map Route (completed g cs u) \<and>
    map route_of (sv_durations st') = map route_of (sv_durations st) @ map Route (completed g cs u)"
  using assms(5-7)
proof (induction cs arbitrary: st u as bs)
  case (Cons c cs)
  obtain a st1 where h: "h None c st = (a, st1)" by (cases "h None c st")
  obtain b u1 where g: "g None c u = (b, u1)" by (cases "g None c u")
  obtain as1 where as: "serve_calls h cs st1 = (as1, st')" "as = a # as1"
    using Cons.prems(2) h by (auto split: prod.splits)
  obtain bs1 where bs: "serve_calls g cs u1 = (bs1, u')" "bs = b # bs1"
    using Cons.prems(3) g by (auto split: prod.splits)
  note one = instrumented_call [OF assms(1,2) Cons.prems(1) h [unfolded assms(3)] g [unfolded assms(4)], folded assms(4)]
  have c: "completed g (c # cs) u = completed g [c] u @ completed g cs u1" using g by simp
  show ?case
    using Cons.IH [OF _ as(1) bs(1)] one as(2) bs(2) unfolding c by simp
qed simp

text \<open>
  C37.  Instrumentation.  Whatever sequence of requests the program serves, with wrappers that do what
  their documentation says, the answers and the supervisor's state are those of the bare
  API; every request that reaches the API and is not aborted is counted once, in order, under the
  label of its route; and the label is one of five values, whatever paths clients ask for, so
  the number of series is bounded.  A scrape of the metrics is not counted.
\<close>

theorem InstrumentHTTP_spec:
  assumes "counts_requests counter" and "counts_durations duration"
    and "serve_calls (main_handler expose (InstrumentHTTP counter duration (api_handler lg) (\<lambda>r. Route (UrlPath r)))) cs
           \<lparr>sv_sup = s, sv_requests = [], sv_durations = []\<rparr> = (as, st)"
  shows "\<exists>u. serve_calls (main_handler expose (api_handler lg)) cs
             \<lparr>sv_sup = s, sv_requests = [], sv_durations = []\<rparr> = (as, u) \<and> sv_sup st = sv_sup u \<and>
    map route_of (sv_requests st) =
      map Route (completed (main_handler expose (api_handler lg)) cs \<lparr>sv_sup = s, sv_requests = [], sv_durations = []\<rparr>) \<and>
    map route_of (sv_durations st) = map route_of (sv_requests st) \<and>
    route_of ` set (sv_requests st) \<subseteq>
      {''/sessions'', ''/sessions/acquire'', ''/sessions/{id}'', ''/proxy/{id}'', ''unknown''}"
proof -
  let ?st = "\<lparr>sv_sup = s, sv_requests = [], sv_durations = []\<rparr>"
  obtain bs u where g: "serve_calls (main_handler expose (api_handler lg)) cs ?st = (bs, u)"
    by (cases "serve_calls (main_handler expose (api_handler lg)) cs ?st")
  note i = instrumented_calls [OF assms(1,2) refl refl refl assms(3) g]
  have m: "map route_of (sv_requests st) = map Route (completed (main_handler expose (api_handler lg)) cs ?st)"
    "map route_of (sv_durations st) = map route_of (sv_requests st)" using i by simp_all
  have "set (map route_of (sv_requests st)) \<subseteq> range Route" unfolding m(1) by auto
  moreover have "Route p \<in> {''/sessions'', ''/sessions/acquire'', ''/sessions/{id}'', ''/proxy/{id}'', ''unknown''}" for p
    by (simp add: Route_def)
  then have "range Route \<subseteq> {''/sessions'', ''/sessions/acquire'', ''/sessions/{id}'', ''/proxy/{id}'', ''unknown''}"
    by blast
  ultimately have "route_of ` set (sv_requests st) \<subseteq>
      {''/sessions'', ''/sessions/acquire'', ''/sessions/{id}'', ''/proxy/{id}'', ''unknown''}"
    unfolding set_map by (rule order_trans)
  then show ?thesis using g i m by blast
qed

definition sample_counter :: wrapper where
  "sample_counter label h ctx c st = (case h ctx c st of (a, st') \<Rightarrow>
     (a, if a = Aborted then st' else st'\<lparr>sv_requests := sv_requests st' @ [(''200'', ''get'', label ctx)]\<rparr>))"

definition sample_duration :: wrapper where
  "sample_duration label h ctx c st = (case h ctx c st of (a, st') \<Rightarrow>
     (a, if a = Aborted then st' else st'\<lparr>sv_durations := sv_durations st' @ [(''200'', ''get'', label ctx)]\<rparr>))"

lemma sample_wrappers: "counts_requests sample_counter" "counts_durations sample_duration"
  unfolding counts_requests_def counts_durations_def sample_counter_def sample_duration_def by blast+

theorem InstrumentHTTP_spec_witness:
  "\<exists>as st. serve_calls (main_handler (\<lambda>_. Answer 200 None NoBody)
       (InstrumentHTTP sample_counter sample_duration (api_handler []) (\<lambda>r. Route (UrlPath r))))
       [(sample_api, sample_request\<lparr>Method := ''GET'', EscPath := ''/metrics''\<rparr>),
        (sample_api, sample_request\<lparr>Method := ''GET''\<rparr>)]
       \<lparr>sv_sup = two_sessions, sv_requests = [], sv_durations = []\<rparr> = (as, st) \<and>
     map route_of (sv_requests st) = [''/sessions'']"
proof -
  let ?h = "main_handler (\<lambda>_. Answer 200 None NoBody)
       (InstrumentHTTP sample_counter sample_duration (api_handler []) (\<lambda>r. Route (UrlPath r)))"
  let ?cs = "[(sample_api, sample_request\<lparr>Method := ''GET'', EscPath := ''/metrics''\<rparr>),
        (sample_api, sample_request\<lparr>Method := ''GET''\<rparr>)]"
  let ?st = "\<lparr>sv_sup = two_sessions, sv_requests = [], sv_durations = []\<rparr>"
  obtain as st where s: "serve_calls ?h ?cs ?st = (as, st)" by (cases "serve_calls ?h ?cs ?st")
  have p: "list_all plain_segment [''metrics'']" "list_all plain_segment [''sessions'']"
    by (simp_all add: plain_segment_def plain_elem_def)
  have "main_route (sample_request\<lparr>Method := ''GET'', EscPath := ''/metrics''\<rparr>) = Handler MetricsH []"
    "main_route (sample_request\<lparr>Method := ''GET''\<rparr>) = Handler ApiH []"
    using main_route_plain [OF _ p(1)] main_route_plain [OF _ p(2)] by (simp_all add: abs_path_def sample_request_def)
  then have "map Route (completed (main_handler (\<lambda>_. Answer 200 None NoBody) (api_handler [])) ?cs ?st) = [''/sessions'']"
    by (simp add: main_handler_def reaches_api_def api_handler_def ServeHTTP_def mux_fixed List_handler_def sample_request_def Route_def
        UrlPath_def unescape_plain del: unescape.simps)
  then show ?thesis using InstrumentHTTP_spec [OF sample_wrappers s] s by auto
qed


section \<open>The whole way of a session\<close>

lemma program_api:
  assumes "counts_requests counter" "counts_durations duration"
    and "h = main_handler expose (InstrumentHTTP counter duration (api_handler lg) (\<lambda>r. Route (UrlPath r)))"
    and "es \<noteq> []" "list_all plain_segment es" "es \<noteq> [''metrics'']" "EscPath r = abs_path es"
  shows "fst (h ctx (env, r) st) = fst (ServeHTTP lg env r (sv_sup st))"
    "sv_sup (snd (h ctx (env, r) st)) = snd (snd (ServeHTTP lg env r (sv_sup st)))"
proof -
  obtain a st' where a: "h ctx (env, r) st = (a, st')" by (cases "h ctx (env, r) st")
  obtain b u' where b: "main_handler expose (api_handler lg) ctx (env, r) st = (b, u')"
    by (cases "main_handler expose (api_handler lg) ctx (env, r) st")
  obtain x lgs s where x: "ServeHTTP lg env r (sv_sup st) = (x, lgs, s)"
    by (cases "ServeHTTP lg env r (sv_sup st)")
  have "main_route r = Handler ApiH []" using main_route_plain [OF assms(4,5,7)] assms(6) by simp
  then have "b = x" "sv_sup u' = s" using b x by (auto simp: main_handler_def api_handler_def)
  then show "fst (h ctx (env, r) st) = fst (ServeHTTP lg env r (sv_sup st))"
    "sv_sup (snd (h ctx (env, r) st)) = snd (snd (ServeHTTP lg env r (sv_sup st)))"
    using instrumented_call [OF assms(1,2) refl a [unfolded assms(3)] b] a x by simp_all
qed

text \<open>
  C12.  The URL a client is given leads to its browser.  When a creation is answered with 200, the
  JSON in the answer, read back, has the id of the new session and what chromium reported, but as
  debugger URL the proxy path of the session on the host the client used, while the supervisor keeps
  chromium's own URL; and a request for that path is handed to the proxy with chromium's own URL
  as backend, its host as the one \<open>Host\<close> header and no \<open>Origin\<close>.  This is so
  for the program as a whole, with its router and instrumentation around the API.
\<close>

theorem session_url_roundtrip:
  assumes "counts_requests counter" and "counts_durations duration"
    and "h = main_handler expose (InstrumentHTTP counter duration (api_handler lg) (\<lambda>r. Route (UrlPath r)))"
    and "Method r = ''POST''" and "EscPath r \<in> {''/sessions'', ''/sessions/acquire''}" and "ReqHost r \<noteq> []"
    and "h None (env, r) st = (Answer 200 ct (Json bytes), st')"
  shows "\<exists>own. Session (ID own) (sv_sup st') = Some own \<and>
    read_json bytes None = Inr (JObj [(''id'', JStr (ID own)),
      (''chromiumVersion'', version_json ((valid_version (ChromiumVersion own))\<lparr>WebSocketDebuggerURL :=
         ''ws://'' @ url_escape host_char (ReqHost r) @ ''/proxy/'' @ ID own\<rparr>))]) \<and>
    (\<forall>env2 r2 host. api_parse env2 (WebSocketDebuggerURL (ChromiumVersion own)) = Inr host \<longrightarrow>
       fst (h None (env2, r2\<lparr>EscPath := ''/proxy/'' @ ID own\<rparr>) st') =
         Proxied (WebSocketDebuggerURL (ChromiumVersion own)) (Director host)) \<and>
    (\<forall>host out. filter (\<lambda>(k, v). k = ''Host'') (Director host out) = [(''Host'', host)] \<and>
      filter (\<lambda>(k, v). k = ''Origin'') (Director host out) = [])"
proof -
  note api = program_api [OF assms(1-3)]
  have p: "list_all plain_segment [''sessions'', ''acquire'']" "list_all plain_segment [''sessions'']" "plain_segment ''proxy''"
    by (simp_all add: plain_segment_def plain_elem_def)
  obtain es where es: "es \<noteq> []" "list_all plain_segment es" "es \<noteq> [''metrics'']" "EscPath r = abs_path es"
    using assms(5) p(1,2) that [of "[''sessions'']"] that [of "[''sessions'', ''acquire'']"] by (auto simp: abs_path_def)
  obtain lgs where s: "ServeHTTP lg env r (sv_sup st) = (Answer 200 ct (Json bytes), lgs, sv_sup st')"
    using api [OF es, of None env st] assms(7) by (cases "ServeHTTP lg env r (sv_sup st)") auto
  obtain own where own: "Session (ID own) (sv_sup st') = Some own" "plain_segment (ID own)"
    "read_json bytes None = Inr (JObj [(''id'', JStr (ID own)),
      (''chromiumVersion'', version_json ((valid_version (ChromiumVersion own))\<lparr>WebSocketDebuggerURL :=
         ''ws://'' @ url_escape host_char (ReqHost r) @ ''/proxy/'' @ ID own\<rparr>))])"
    "\<And>lg2 env2 r2 host. api_parse env2 (WebSocketDebuggerURL (ChromiumVersion own)) = Inr host \<Longrightarrow>
       fst (ServeHTTP lg2 env2 (r2\<lparr>EscPath := ''/proxy/'' @ ID own\<rparr>) (sv_sup st')) =
         Proxied (WebSocketDebuggerURL (ChromiumVersion own)) (Director host)"
    using session_url [OF assms(4-6) s] by blast
  have "fst (h None (env2, r2\<lparr>EscPath := ''/proxy/'' @ ID own\<rparr>) st') =
      fst (ServeHTTP lg env2 (r2\<lparr>EscPath := ''/proxy/'' @ ID own\<rparr>) (sv_sup st'))" for env2 r2
    by (rule api(1) [of "[''proxy'', ID own]"]) (simp_all add: p(3) own(2) abs_path_def)
  then have "\<forall>env2 r2 host. api_parse env2 (WebSocketDebuggerURL (ChromiumVersion own)) = Inr host \<longrightarrow>
       fst (h None (env2, r2\<lparr>EscPath := ''/proxy/'' @ ID own\<rparr>) st') =
         Proxied (WebSocketDebuggerURL (ChromiumVersion own)) (Director host)"
    using own(4) by simp
  with own(1,3) Director_headers show ?thesis by blast
qed

theorem session_url_roundtrip_witness:
  "\<exists>bytes st' sid v. main_handler (\<lambda>_. Answer 200 None NoBody)
       (InstrumentHTTP sample_counter sample_duration (api_handler []) (\<lambda>r. Route (UrlPath r))) None (sample_api, sample_request)
       \<lparr>sv_sup = two_sessions, sv_requests = [], sv_durations = []\<rparr> =
       (Answer 200 (Some ''application/json'') (Json bytes), st') \<and>
     read_json bytes None = Inr (JObj [(''id'', JStr sid),
       (''chromiumVersion'', version_json (v\<lparr>WebSocketDebuggerURL := ''ws://'' @ ''croco:8080'' @ ''/proxy/'' @ sid\<rparr>))])"
proof -
  define h where "h = main_handler (\<lambda>_. Answer 200 None NoBody)
       (InstrumentHTTP sample_counter sample_duration (api_handler []) (\<lambda>r. Route (UrlPath r)))"
  let ?st = "\<lparr>sv_sup = two_sessions, sv_requests = [], sv_durations = []\<rparr>"
  obtain bytes lgs s' where c: "ServeHTTP [] sample_api sample_request two_sessions =
      (Answer 200 (Some ''application/json'') (Json bytes), lgs, s')" using sample_ServeHTTP by blast
  have m: "Method sample_request = ''POST''" "EscPath sample_request \<in> {''/sessions'', ''/sessions/acquire''}"
    "ReqHost sample_request \<noteq> []" "url_escape host_char (ReqHost sample_request) = ''croco:8080''"
    by (simp_all add: sample_request_def url_escape_def host_char_def alnum_def between_def)
  have p: "list_all plain_segment [''sessions'']" by (simp add: plain_segment_def plain_elem_def)
  have "fst (h None (sample_api, sample_request) ?st) = Answer 200 (Some ''application/json'') (Json bytes)"
    using program_api(1) [OF sample_wrappers h_def _ p, of sample_request None sample_api ?st] c
    by (simp add: abs_path_def sample_request_def)
  then obtain st' where h: "h None (sample_api, sample_request) ?st = (Answer 200 (Some ''application/json'') (Json bytes), st')"
    by (cases "h None (sample_api, sample_request) ?st") simp
  from session_url_roundtrip [OF sample_wrappers h_def m(1-3) h] h show ?thesis unfolding m(4) h_def by blast
qed

end
