(* ===== verification/Test_Helpers.thy ===== *)
theory Test_Helpers
  imports Chromium_Client Go_Mux
begin

text \<open>
  Model of the helpers in \<open>internal/testutil\<close>: the fake version endpoint, its router and its answers, the
  heartbeat script as it is written to its directory, what one
  round of it leaves there, and how a test counts the processes that are
  alive and dead from the files it finds.  The walk over the directory is a list of what it
  meets, with the time each file is judged at.
\<close>

section \<open>The fake version endpoint\<close>

definition version_line :: "string \<Rightarrow> string \<Rightarrow> string" where
  "version_line k v =
     ''   '' @ [quote_char] @ k @ [quote_char] @ '': '' @ [quote_char] @ v @ [quote_char]"

definition ChromiumVersionHandler :: reply where
  "ChromiumVersionHandler =
     Response 200
       (''{'' @ [newline] @
        version_line ''Browser'' ''HeadlessChrome/124.0.6367.207'' @ '','' @ [newline] @
        version_line ''Protocol-Version'' ''1.3'' @ '','' @ [newline] @
        version_line ''User-Agent'' ''Mozilla/5.0 (X11; Linux x86_64) AppleWebKit/537.36 (KHTML, like Gecko) HeadlessChrome/124.0.6367.207 Safari/537.36'' @ '','' @ [newline] @
        version_line ''V8-Version'' ''12.4.254.15'' @ '','' @ [newline] @
        version_line ''WebKit-Version'' ''537.36 (@a9001a6e39fbaa559510ca866052950457dd4e6b)'' @ '','' @ [newline] @
        version_line ''webSocketDebuggerUrl'' ''ws://foobar:9222/devtools/browser/a279f03c-3afc-4acc-92ba-7134f618fedf'' @ [newline] @
        ''}'')
       None"

definition InternalServerErrorHandler :: reply where
  "InternalServerErrorHandler = Response 500 [] None"

text \<open>The router of the fake server, and what a client is answered; \<open>None\<close>: it is redirected.\<close>

definition HTTPInfo :: "reply \<Rightarrow> reply router outcome" where
  "HTTPInfo chromiumHandler = Handle ''GET /json/version'' chromiumHandler []"

definition answer_of :: "reply router \<Rightarrow> string \<Rightarrow> string \<Rightarrow> reply option" where
  "answer_of rt m p =
     (case find_handler rt m p of
        Handler h _ \<Rightarrow> Some h
      | NotAllowed \<Rightarrow> Some (Response 405 (''Method Not Allowed'' @ [newline]) None)
      | NotFound \<Rightarrow> Some (Response 404 (''404 page not found'' @ [newline]) None)
      | RedirectTo _ \<Rightarrow> None
      | BadTarget \<Rightarrow> Some (Response 400 [] None))"

section \<open>The heartbeat\<close>

text \<open>The script, line by line; \<open>dq\<close> and \<open>sq\<close> are the two quotes.\<close>

definition heartbeatSh :: string where
  "heartbeatSh =
     (let dq = [quote_char]; sq = [CHR 0x27]; tab = [CHR 0x09]
      in Join
        [''#!/usr/bin/env bash'',
         [],
         ''# heartbeat.sh is a script that writes the current timestamp to a file named after its PID.'',
         [],
         ''set -e'',
         [],
         ''DIR='' @ dq @ ''$(realpath '' @ dq @ ''$(dirname '' @ dq @ ''${BASH_SOURCE[0]}'' @ dq @ '')'' @ dq @ '')'' @ dq,
         [],
         ''# Write to a temp file and rename: '' @ sq @ ''>'' @ sq @ '' truncates before writing, and a reader hitting that window would see an'',
         ''# empty file. The rename is atomic, and the temp name does not match the '' @ dq @ ''canary-'' @ dq @ '' prefix readers look for.'',
         ''while true; do'',
         tab @ ''date '' @ sq @ ''+%s'' @ sq @ '' > '' @ dq @ ''$DIR/.canary-$$.tmp'' @ dq,
         tab @ ''mv '' @ dq @ ''$DIR/.canary-$$.tmp'' @ dq @ '' '' @ dq @ ''$DIR/canary-$$'' @ dq,
         tab @ ''sleep 1'',
         ''done'',
         []] [newline])"

text \<open>
  Making it: given a new directory and how opening and writing the file end, the message the test fails
  with, or the heartbeat with the file that is there now and its contents.
\<close>

record Heartbeat =
  hb_Path :: string

definition NewHeartbeat ::
    "string \<Rightarrow> go_error option \<Rightarrow> go_error option \<Rightarrow> string + Heartbeat \<times> (string \<times> string)" where
  "NewHeartbeat dir opened written =
     (let p = path_Join [dir, ''heartbeat.sh'']
      in (case opened of
            Some err \<Rightarrow> Inl ''creating heartbeat script''
          | None \<Rightarrow>
              (case written of
                 Some err \<Rightarrow> Inl ''writing heartbeat script contents''
               | None \<Rightarrow> Inr (\<lparr>hb_Path = p\<rparr>, (p, heartbeatSh)))))"

text \<open>A round of the script at an instant: the name and the contents of its file.\<close>

definition beat :: "nat \<Rightarrow> instant \<Rightarrow> string \<times> string" where
  "beat pid t = (''canary-'' @ dec pid, Itoa (t div second) @ [newline])"

text \<open>What the walk meets: an entry it cannot read, a directory, or a file, its contents and when they are judged.\<close>

datatype walked =
    WalkError go_error
  | Directory string
  | Plain string "go_error + string" instant

text \<open>A Unix time is kept as 64-bit seconds from year 1.\<close>

definition unixToInternal :: int where
  "unixToInternal = 62135596800"

definition unix_time :: "int \<Rightarrow> instant" where
  "unix_time n = (((n + unixToInternal + 2 ^ 63) mod 2 ^ 64 - 2 ^ 63) - unixToInternal) * second"

fun aliveDead_from :: "nat \<times> nat \<Rightarrow> walked list \<Rightarrow> string + nat \<times> nat" where
  "aliveDead_from (alive, dead) [] = Inr (alive, dead)"
| "aliveDead_from (alive, dead) (WalkError e # ws) = Inl ''walking canary files''"
| "aliveDead_from (alive, dead) (Directory p # ws) = aliveDead_from (alive, dead) ws"
| "aliveDead_from (alive, dead) (Plain p contents at # ws) =
     (if \<not> HasPrefix (Base p) ''canary-'' then aliveDead_from (alive, dead) ws
      else (case contents of
              Inl e \<Rightarrow> Inl ''reading hbFile''
            | Inr c \<Rightarrow>
                (case ParseInt (TrimSpace c) of
                   Inl e \<Rightarrow> Inl ''parsing timestamp from hbFile''
                 | Inr timestamp \<Rightarrow>
                     if at - unix_time timestamp < 2 * second then aliveDead_from (Suc alive, dead) ws
                     else aliveDead_from (alive, Suc dead) ws)))"

definition aliveDead :: "walked list \<Rightarrow> string + nat \<times> nat" where
  "aliveDead ws = aliveDead_from (0, 0) ws"

text \<open>The test's verdict on the numbers it wants: the message it fails with.\<close>

definition AssertAliveDead :: "nat \<Rightarrow> nat \<Rightarrow> walked list \<Rightarrow> string option" where
  "AssertAliveDead alive dead ws =
     (case aliveDead ws of
        Inl m \<Rightarrow> Some m
      | Inr (actualAlive, actualDead) \<Rightarrow>
          if alive \<noteq> actualAlive then Some ''Wanted %d alive processes, found %d/%d''
          else if dead \<noteq> actualDead then Some ''Wanted %d dead processes, found %d/%d''
          else None)"

section \<open>Properties\<close>

lemma str_body_chars:
  "list_all (\<lambda>c. c \<noteq> quote_char \<and> c \<noteq> backslash \<and> between 0x20 c 0x7F) s \<Longrightarrow> str_body (s @ quote_char # u) = Got s u"
proof (induction s)
  case Nil
  then show ?case by (simp add: str_body.simps(2))
next
  case (Cons c s)
  then show ?case by (simp add: str_body_plain between_def)
qed

definition plain_text :: "string \<Rightarrow> bool" where
  "plain_text s \<longleftrightarrow> list_all (\<lambda>c. c \<noteq> quote_char \<and> c \<noteq> backslash \<and> between 0x20 c 0x7F) s"

lemma read_version_line:
  assumes "plain_text k" "plain_text v"
  shows "jmembers n (newline # version_line k v @ c # u) =
    (case skip_space (c # u) of
       [] \<Rightarrow> Truncated
     | e # w \<Rightarrow> if e = CHR '','' then scan_map (Cons (k, JStr v)) (jmembers n w)
                else if e = CHR ''}'' then Got [(k, JStr v)] w else Malformed)"
proof -
  have s: "skip_space (newline # version_line k v @ c # u) =
      quote_char # k @ quote_char # '': '' @ quote_char # v @ quote_char # c # u"
    by (simp add: version_line_def skip_space_def isSpace_def)
  have v: "jvalue n (space # quote_char # v @ quote_char # c # u) = Got (JStr v) (c # u)"
    using str_body_chars [of v "c # u"] assms(2)
    by (simp add: jvalue.simps skip_space_def isSpace_def plain_text_def)
  show ?thesis
    using str_body_chars [of k "'': '' @ quote_char # v @ quote_char # c # u"] assms(1)
    by (simp add: jmembers.simps [of n "newline # x" for x] s v plain_text_def)
qed

text \<open>
  The fixtures of the tests are read as the tests expect.  The answer of the fake endpoint is
  decoded to the version it spells out, in chromium's own layout, and the answer without a body is
  an error that wraps \<open>io.EOF\<close>.
\<close>

theorem fixtures_decode:
  "version ChromiumVersionHandler = Inr
     \<lparr>Browser = ''HeadlessChrome/124.0.6367.207'', ProtocolVersion = ''1.3'',
      UserAgent = ''Mozilla/5.0 (X11; Linux x86_64) AppleWebKit/537.36 (KHTML, like Gecko) HeadlessChrome/124.0.6367.207 Safari/537.36'',
      V8Version = ''12.4.254.15'', WebKitVersion = ''537.36 (@a9001a6e39fbaa559510ca866052950457dd4e6b)'',
      WebSocketDebuggerURL = ''ws://foobar:9222/devtools/browser/a279f03c-3afc-4acc-92ba-7134f618fedf''\<rparr> \<and>
   version InternalServerErrorHandler = Inl (Errorf ''decoding response body: %w'' [] (Some EOF))"
proof -
  let ?v = "\<lparr>Browser = ''HeadlessChrome/124.0.6367.207'', ProtocolVersion = ''1.3'',
      UserAgent = ''Mozilla/5.0 (X11; Linux x86_64) AppleWebKit/537.36 (KHTML, like Gecko) HeadlessChrome/124.0.6367.207 Safari/537.36'',
      V8Version = ''12.4.254.15'', WebKitVersion = ''537.36 (@a9001a6e39fbaa559510ca866052950457dd4e6b)'',
      WebSocketDebuggerURL = ''ws://foobar:9222/devtools/browser/a279f03c-3afc-4acc-92ba-7134f618fedf''\<rparr>"
  have p: "list_all plain_text version_names" "list_all plain_text (version_values ?v)"
    by (simp_all add: version_names_def version_values_def plain_text_def between_def)
  obtain bytes where b: "ChromiumVersionHandler = Response 200 bytes None"
    and e: "bytes = CHR ''{'' # newline # version_line ''Browser'' (Browser ?v) @ CHR '','' # newline #
        version_line ''Protocol-Version'' (ProtocolVersion ?v) @ CHR '','' # newline #
        version_line ''User-Agent'' (UserAgent ?v) @ CHR '','' # newline #
        version_line ''V8-Version'' (V8Version ?v) @ CHR '','' # newline #
        version_line ''WebKit-Version'' (WebKitVersion ?v) @ CHR '','' # newline #
        version_line ''webSocketDebuggerUrl'' (WebSocketDebuggerURL ?v) @ newline # ''}''"
    by (simp add: ChromiumVersionHandler_def)
  have m: "jmembers n (newline # version_line k v @ CHR '','' # u) = scan_map (Cons (k, JStr v)) (jmembers n u)"
    "jmembers n (newline # version_line k v @ newline # ''}'') = Got [(k, JStr v)] []"
    if "plain_text k" "plain_text v" for n k v u
    using read_version_line [OF that, of n "CHR '',''" u] read_version_line [OF that, of n newline "''}''"]
    by (simp_all add: skip_space_def isSpace_def)
  have "skip_space (newline # version_line k v @ u) = quote_char # k @ quote_char # '': '' @ quote_char # v @ quote_char # u" for k v u
    by (simp add: version_line_def skip_space_def isSpace_def)
  then have "jvalue 0 bytes = Got (version_json ?v) []"
    using p unfolding e
    by (simp only: version_names_def version_values_def VersionInfo.select_convs list.pred_inject)
      (simp add: jvalue.simps m maxNestingDepth_def version_json_def version_names_def version_values_def)
  then have "read_json bytes None = Inr (version_json ?v)" by (simp add: read_json_def)
  moreover have "read_json [] None = Inl EOF" by (simp add: read_json_def jvalue.simps)
  ultimately show ?thesis by (simp add: b InternalServerErrorHandler_def version_def decode_version_json)
qed

lemma unix_time_small: "0 \<le> n \<Longrightarrow> n < 2 ^ 62 \<Longrightarrow> unix_time n = n * second"
  by (simp add: unix_time_def unixToInternal_def)

lemma TrimSpace_dec: "TrimSpace (dec n @ [newline]) = dec n"
proof -
  obtain a s' where a: "dec n = a # s'" by (cases "dec n") auto
  obtain s'' z where z: "dec n = s'' @ [z]" by (cases "dec n" rule: rev_cases) auto
  have "a \<in> set (dec n)" using a by simp
  moreover have "z \<in> set (dec n)" using z by simp
  ultimately have "printable a" "printable z" by (simp_all add: digit_printable dec_digits)
  then show ?thesis using TrimSpace_text(2) [OF a _ z] by blast
qed

lemma canary_plain: "plain_elem (''canary-'' @ dec pid)"
proof -
  have "slash \<notin> set (dec pid)" using dec_digits [of slash pid] by (auto simp: is_digit_def)
  then show ?thesis by (simp add: plain_elem_def)
qed

text \<open>The file of a process in a directory, as last written at an instant and judged at another.\<close>

definition canary :: "string \<Rightarrow> nat \<times> instant \<times> instant \<Rightarrow> walked" where
  "canary dir x = (case x of (pid, wrote, at) \<Rightarrow> Plain (dir @ slash # fst (beat pid wrote)) (Inr (snd (beat pid wrote))) at)"

lemma aliveDead_canary:
  assumes "0 \<le> wrote" "wrote < 2 ^ 62"
  shows "aliveDead_from (a, d) (canary dir (pid, wrote, at) # ws) =
     (if at - wrote div second * second < 2 * second then aliveDead_from (Suc a, d) ws else aliveDead_from (a, Suc d) ws)"
proof -
  have n: "0 \<le> wrote div second" "wrote div second < 2 ^ 62"
    using assms by simp_all
  have "Base (dir @ slash # ''canary-'' @ dec pid) = ''canary-'' @ dec pid"
    by (rule Base_file) (rule canary_plain)
  then show ?thesis
    using n ParseInt_dec [of "nat (wrote div second)"]
    by (simp add: canary_def beat_def Itoa_def TrimSpace_dec unix_time_small not_less del: append.simps)
qed

text \<open>
  The fake endpoint answers with its handler exactly where chromium answers, and a client that asks
  there for the version gets what the fixture spells out.
\<close>

lemma HTTPInfo_serves:
  "\<exists>rt. HTTPInfo h = Return rt \<and> answer_of rt ''GET'' ''/json/version'' = Some h \<and>
     (\<forall>m p h' vs. find_handler rt m p = Handler h' vs \<longrightarrow> m \<in> {''GET'', ''HEAD''} \<and> segments p = [''json'', ''version''])"
proof -
  let ?p = "\<lparr>pat_method = ''GET'', pat_segs = [Lit ''json'', Lit ''version'']\<rparr>"
  have rt: "HTTPInfo h = Return [(?p, h)]"
    by (simp add: HTTPInfo_def Handle_def parse_pattern_def parse_path_def parse_segment_def unescape_plain)
  have c: "method_child m [(?p, h)] = (if m = ''GET'' then [([Lit ''json'', Lit ''version''], ?p, h)] else [])" for m
    by simp
  have p: "match_path [([Lit ''json'', Lit ''version''], n)] ss ms = (if ss = [''json'', ''version''] then Some (n, ms) else None)"
    for n :: "pattern \<times> reply" and ss ms
    by (cases ss; cases "tl ss"; cases "tl (tl ss)") (auto simp: find_child_def)
  have m: "match_method [(?p, h)] m ss =
      (if m \<in> {''GET'', ''HEAD''} \<and> ss = [''json'', ''version''] then Some ((?p, h), []) else None)" for m ss
    by (auto simp: match_method_def c p simp del: match_path.simps child_Cons)
  have s: "segments ''/json/version'' = [''json'', ''version'']" "cleanPath ''/json/version'' = ''/json/version''"
    using segments_abs_path [of "[''json'', ''version'']"] cleanPath_plain [of "[''json'', ''version'']"]
    by (simp_all add: abs_path_def plain_elem_def)
  have "answer_of [(?p, h)] ''GET'' ''/json/version'' = Some h"
    by (simp add: answer_of_def find_handler_def s m wild_names_def)
  moreover have "m \<in> {''GET'', ''HEAD''} \<and> segments p = [''json'', ''version'']"
    if "find_handler [(?p, h)] m p = Handler h' vs" for m p h' vs
    using that by (auto simp: find_handler_def m split: if_splits)
  ultimately show ?thesis using rt by blast
qed

text \<open>The script and what it leaves behind between its two commands are not counted.\<close>

lemma NewHeartbeat_path:
  assumes "list_all plain_elem es" "NewHeartbeat (abs_path es) None None = Inr (hb, f)"
  shows "Dir (hb_Path hb) = abs_path es" "f = (hb_Path hb, heartbeatSh)"
    "aliveDead_from (a, d) (Plain (hb_Path hb) c at # ws) = aliveDead_from (a, d) ws"
proof -
  have f: "plain_elem ''heartbeat.sh''" by (simp add: plain_elem_def)
  have hb: "hb_Path hb = abs_path (es @ [''heartbeat.sh''])" and "f = (hb_Path hb, heartbeatSh)"
    using assms(2) path_Join_abs_path [OF assms(1) f] by (auto simp: NewHeartbeat_def Let_def)
  then show "f = (hb_Path hb, heartbeatSh)" by simp
  show "Dir (hb_Path hb) = abs_path es" unfolding hb by (rule Dir_abs_path [OF assms(1) f])
  have "Base (hb_Path hb) = ''heartbeat.sh''"
    unfolding hb abs_path_snoc using Base_file(1) [OF f, of "[]"] Base_file(1) [OF f] by simp
  then show "aliveDead_from (a, d) (Plain (hb_Path hb) c at # ws) = aliveDead_from (a, d) ws" by simp
qed

lemma aliveDead_canaries:
  assumes "\<forall>(pid, wrote, at) \<in> set xs. 0 \<le> wrote \<and> wrote < 2 ^ 62 \<and> (at < wrote + second \<or> wrote + 2 * second \<le> at)"
  shows "aliveDead_from (a, d) (map (canary dir) xs @ ws) =
    aliveDead_from (a + length (filter (\<lambda>(pid, wrote, at). at < wrote + second) xs),
      d + length (filter (\<lambda>(pid, wrote, at). wrote + 2 * second \<le> at) xs)) ws"
  using assms
proof (induction xs arbitrary: a d)
  case (Cons x xs)
  obtain pid wrote at where x: "x = (pid, wrote, at)" by (cases x)
  have "wrote div second * second \<le> wrote" "wrote < wrote div second * second + second"
    using div_mult_mod_eq [of wrote second] by (simp_all add: pos_mod_bound minus_mod_eq_div_mult [symmetric])
  moreover have w: "0 \<le> wrote" "wrote < 2 ^ 62" "at < wrote + second \<or> wrote + 2 * second \<le> at"
    using Cons.prems x by auto
  ultimately show ?case
    using Cons.IH Cons.prems aliveDead_canary [OF w(1,2)] by (auto simp: x simp del: One_nat_def)
qed simp

text \<open>
  Counting the processes that are alive.  In the directory of a new heartbeat, if every process either has
  written its file less than a
  second ago, or two seconds ago or more, the count is right: the former are alive, the
  latter dead, and the script itself is not counted.  A process that writes again only after a second and some
  time more, as each round of the script does, can be counted dead although it is alive.
\<close>

theorem aliveDead_judges:
  assumes "NewHeartbeat (abs_path es) None None = Inr (hb, p, c)" and "list_all plain_elem es"
    and "\<forall>(pid, wrote, at) \<in> set xs. 0 \<le> wrote \<and> wrote < 2 ^ 62 \<and> (at < wrote + second \<or> wrote + 2 * second \<le> at)"
  shows "aliveDead (Directory (Dir (hb_Path hb)) # map (canary (Dir (hb_Path hb))) xs @ [Plain p (Inr c) t]) =
     Inr (length (filter (\<lambda>(pid, wrote, at). at < wrote + second) xs),
          length (filter (\<lambda>(pid, wrote, at). wrote + 2 * second \<le> at) xs)) \<and>
   aliveDead [canary dir (pid, 999000000, 2001000000)] = Inr (0, 1)"
proof -
  have p: "p = hb_Path hb" using NewHeartbeat_path(2) [OF assms(2,1)] by simp
  have "aliveDead [canary dir (pid, 999000000, 2001000000)] = Inr (0, 1)"
    using aliveDead_canary [of 999000000 0 0 dir pid 2001000000 "[]"] by (simp add: aliveDead_def)
  then show ?thesis
    using NewHeartbeat_path(3) [OF assms(2,1)] aliveDead_canaries [OF assms(3)]
    by (simp add: aliveDead_def p del: aliveDead_from.simps(4))
qed

theorem aliveDead_judges_witness:
  "\<exists>hb p c. NewHeartbeat ''/tmp/t'' None None = Inr (hb, p, c) \<and>
     AssertAliveDead 1 1 (Directory (Dir (hb_Path hb)) #
       map (canary (Dir (hb_Path hb))) [(7, 5500000000, 6100000000), (9, 4000000000, 6100000000)] @ [Plain p (Inr c) 0]) = None"
proof -
  obtain hb p c where n: "NewHeartbeat (abs_path [''tmp'', ''t'']) None None = Inr (hb, p, c)"
    by (simp add: NewHeartbeat_def Let_def)
  have "list_all plain_elem [''tmp'', ''t'']" by (simp add: plain_elem_def)
  from aliveDead_judges [OF n this, of "[(7, 5500000000, 6100000000), (9, 4000000000, 6100000000)]" 0]
  have "aliveDead (Directory (Dir (hb_Path hb)) #
       map (canary (Dir (hb_Path hb))) [(7, 5500000000, 6100000000), (9, 4000000000, 6100000000)] @ [Plain p (Inr c) 0]) = Inr (1, 1)"
    by (simp del: list.map)
  then show ?thesis using n by (auto simp: AssertAliveDead_def abs_path_def simp del: list.map)
qed

end
