(* ===== verification/Spec2Isabelle.thy ===== *)
theory Spec2Isabelle
  imports Main_Flags Instrumented Test_Helpers
begin

text \<open>
  Verification of crocochrome, the supervisor that runs one Chromium at a time for browser checks.

  \<^bold>\<open>The program.\<close>  \<open>cmd/crocochrome/main.go\<close> reads three flags, checks the capabilities of the process,
  makes a supervisor and serves its HTTP API.  The supervisor (\<open>internal/crocochrome\<close>) owns a table
  of sessions under a mutex.  Creating a session starts a goroutine that runs Chromium below a
  context with a deadline, and probes Chromium's version endpoint (\<open>internal/chromium\<close>) until
  it answers; deleting a session, replacing it, or its deadline makes the context done, which
  kills Chromium.  Metrics (\<open>internal/metrics\<close>), the OOM counter of the cgroup and the memory
  of Chromium's processes are read on the way.  On a signal the program drains: it refuses
  new sessions, waits for the goroutines, then stops the server.

  \<^bold>\<open>Theories and sources.\<close>
  \<^item> \<open>Prelude\<close>: error values, \<open>errors.Is\<close>, Go maps as association lists with the locale \<open>table\<close> (the order of the
    list stands for the one \<open>range\<close> happens to take), runs of step relations and the events seen of them, with the
    locales \<open>invariant_system\<close> and \<open>simulation\<close>.
  \<^item> \<open>Go_Strings\<close>, \<open>Go_Numbers\<close>, \<open>Go_Path\<close>: what the sources use of \<open>strings\<close>, \<open>strconv\<close> and \<open>path\<close>, on lists
    of bytes and 64-bit words, and the conversion of integers to \<open>float64\<close>, with its rounding.
  \<^item> \<open>Go_Json\<close>: what they use of \<open>encoding/json\<close>: reading a value from the front of a stream of bytes, with the
    errors of a stream that ends or a text that is malformed, UTF-8 and escapes; writing strings and
    objects; the rules by which members are stored in the fields of a struct.
  \<^item> \<open>Go_Mux\<close>: the router of \<open>net/http\<close>: patterns parsed from their strings, conflicts found when they are
    registered, and the search through the tree of segments; percent-encoded and decoded paths.
  \<^item> \<open>Cgroup\<close>: \<open>cgroup.go\<close>.  \<open>Proc\<close>: \<open>proc.go\<close>.  \<open>Build_Version\<close>: \<open>version.go\<close>.
  \<^item> \<open>Chromium_Client\<close>: \<open>chromium.go\<close>.  What each attempt meets, down to the bytes of a body, is a parameter, a
    function from the number of the attempt; the retry loop is a function with a measure; \<open>with_timeout\<close> is
    what the 500 ms context of a request makes of a server that may never answer.
  \<^item> \<open>Metrics\<close>: \<open>metrics.go\<close>.  The model keeps the sequence of calls on the collectors; counters and the
    gauge are functions of it.  The gauge with the program's version has its labels from \<open>Build_Version\<close>.
  \<^item> \<open>Supervisor_State\<close>: the state of \<open>crocochrome.go\<close>.  Contexts are a list, a context id an
    index; \<open>mtx\<close> holds the creation that is probing, since only a creation keeps the mutex
    over a wait; \<open>wg\<close> is the counter of the \<open>WaitGroup\<close>; \<open>launches\<close> are the goroutines that
    run \<open>launch\<close>; \<open>crashed\<close> says that a goroutine has panicked.
  \<^item> \<open>Launch\<close>: \<open>mkdirTemp\<close> and \<open>launch\<close>, split where Chromium runs.  \<open>Background\<close>: what happens without
    the mutex (goroutines, deadlines, time), and \<open>ComputeUserAgent\<close>.
  \<^item> \<open>Supervisor\<close>: every method on the table; \<open>create\<close> is split at its probe, and composed
    again with what happens meanwhile.
  \<^item> \<open>Supervisor_Steps\<close>: all of this as one step relation, and its invariant.  \<open>Supervisor_Safety\<close>,
    \<open>Supervisor_Timeout\<close>, \<open>Supervisor_Acquire\<close>: what follows.
  \<^item> \<open>Http_Api\<close>: \<open>http.go\<close>: the five patterns it registers, and the bytes of its JSON
    bodies read and written.  A request has its path as it is escaped, which the router uses; the log and the
    labels use the decoded one.
  \<^item> \<open>Instrumented\<close>: \<open>InstrumentHTTP\<close> of \<open>metrics.go\<close> around the API, and the router of \<open>main.go\<close>.
  \<^item> \<open>Main_Run\<close>: \<open>main.go\<close>: the start, and the shutdown as a step relation beside the
    supervisor's.  \<open>Main_Flags\<close>: its command line and exit status.
  \<^item> \<open>Test_Helpers\<close>: the fake endpoint, its router, and the heartbeat of \<open>internal/testutil\<close> with its script.

  \<^bold>\<open>What is proved.\<close>
  \<^item> The functional lemmas of each operation, on every branch: creating, deleting, replacing,
    launching, probing, reading counters, routing, answering.
  \<^item> For every interleaving: at most one session, metrics that agree with the table, at most one
    browser nobody has asked to stop, and a \<open>WaitGroup\<close> that counts the goroutines.
  \<^item> As long as clients only acquire, a session ends by its timeout alone and there is one creation at most between
    two timeouts; a creation always gives the
    mutex back, within 3.26 seconds of a prompt network.
  \<^item> Round trips: every string through its JSON encoding, chromium's version information through the
    probe, a session's through the answer of the API, a check's labels through the body of a
    request into the logger, the configuration through the command line.
  \<^item> A refinement: what clients see of any run, calls with their answers, is a run of an abstract slot for one
    session, which fixes when a call is refused, what a deletion finds and what a creation gives.
  \<^item> Sessions end by themselves: from every reachable state with one, its time passes, and it is gone and counted
    as a timeout.
  \<^item> Draining: nothing is created any more, the deadline of every session passes within the
    session timeout, a measure of the remaining work never grows.
  \<^item> The shutdown: its order, that the grace time is enough, that it ends, also while a creation is probing,
    and that a signal leads to exit status 0.
  \<^item> The routers: no pattern conflicts with another, and what the search finds is given in closed form.
  \<^item> The API: the status of each request, the round trip of the debugger URL, and that
    any sequence of requests leaves the supervisor in a reachable state; the program's router and instrumentation
    change none of it and count each request under one of five routes.

  \<^bold>\<open>Interfaces.\<close>  A client is proved against a locale, which is interpreted on the model's own
  definitions where they are given: \<open>table\<close> for the session map, \<open>comparison\<close> for the
  sort of the build settings, \<open>background_activity\<close> for what events leave alone,
  \<open>json_codec\<close> for encodings that the reader gives back, \<open>session_creator\<close> for the two ways to create a session behind \<open>createSession\<close>,
  \<open>invariant_system\<close> and \<open>simulation\<close> for the step relations.

  \<^bold>\<open>Bounds.\<close>  There is no fuel.  The retry loop ends because each attempt brings the clock
  closer to the deadline; the binary search because its interval shrinks; the reader of JSON because each part leaves less of its
  input; the other loops follow the
  structure of their input.  Counters of the kernel are 64-bit words, and the difference of two
  samples is proved not to wrap around; as a \<open>float64\<close> it is exact up to 2^53 and within one part in 2^53 above.
  A probe of two seconds makes at most six requests, and lasts 3.26 seconds at most beyond the lateness of the system.

  \<^bold>\<open>Parameters.\<close>  Files, the proc filesystem, random bytes, what a process or an HTTP request gives
  back, \<open>url.Parse\<close> (which hosts it accepts differs between releases of Go; the code uses only its error and the
  host), and the metrics registry are arguments of the definitions that use them.

  \<^bold>\<open>Not modelled.\<close>
  \<^item> The rendered text of formatted errors but for those a client is answered with; the order of a log line of one goroutine relative to
    another's; help texts and buckets of metrics; the conversion of
    durations to seconds, and how the metrics library adds up the amounts it is given; the value of a JSON number beyond whether it
    overflows (the literal is kept).
  \<^item> The inside of \<open>promhttp\<close>'s wrappers (their contract is a hypothesis), the web socket proxy beyond its backend
    and headers, the HTTP server: third-party or library code.
  \<^item> A parent context of \<open>ComputeUserAgent\<close> that is cancelled by its caller: the program passes the background context.
  \<^item> The status of the router's redirects, which differs between releases of Go; what a release may do with a
    \<open>CONNECT\<close> request whose path is empty, which here is not found; and forms of patterns no router
    of the program uses (hosts, \<open>{$}\<close>, a final slash with a method).
  \<^item> The sockets and temporary directories of the test helpers, the tests, build files, scripts and the
    documentation: no part of the running program.
\<close>

end
